theory Spec2Isabelle
  imports Complex_Main
begin

section \<open>Time, durations and machine integers\<close>

text \<open>
  Go's \<open>time.Duration\<close> is an \<open>int64\<close> count of nanoseconds. It is modelled as an
  \<open>int\<close> with the two's complement wrap-around written out by \<open>wrap64\<close> wherever the
  source adds or subtracts durations. A \<open>time.Time\<close> is modelled as the number of
  nanoseconds since the Unix epoch (its range is far wider than \<open>int64\<close> nanoseconds,
  so instants are unbounded integers here).
\<close>

type_synonym Time = int
type_synonym Duration = int

definition wrap64 :: "int \<Rightarrow> int" where
  "wrap64 x = (x + 2 ^ 63) mod 2 ^ 64 - 2 ^ 63"

definition wrap32 :: "int \<Rightarrow> int" where
  "wrap32 x = (x + 2 ^ 31) mod 2 ^ 32 - 2 ^ 31"

definition maxDuration :: Duration where
  "maxDuration = 2 ^ 63 - 1"

definition minDuration :: Duration where
  "minDuration = - (2 ^ 63)"

definition Nanosecond :: Duration where
  "Nanosecond = 1"

definition Millisecond :: Duration where
  "Millisecond = 1000000"

definition Second :: Duration where
  "Second = 1000000000"

definition time_Add :: "Time \<Rightarrow> Duration \<Rightarrow> Time" where
  "time_Add t d = t + d"

definition time_Before :: "Time \<Rightarrow> Time \<Rightarrow> bool" where
  "time_Before t u = (t < u)"

text \<open>\<open>Time.Sub\<close> saturates at the smallest and largest \<open>Duration\<close>.\<close>

definition time_Sub :: "Time \<Rightarrow> Time \<Rightarrow> Duration" where
  "time_Sub t u =
     (if t - u < minDuration then minDuration
      else if maxDuration < t - u then maxDuration
      else t - u)"

text \<open>\<open>Time.UnixNano\<close> is the instant as an \<open>int64\<close>; out of range it wraps.\<close>

definition UnixNano :: "Time \<Rightarrow> int" where
  "UnixNano t = wrap64 t"

section \<open>Entities\<close>

type_synonym EntityName = string
type_synonym EntityKind = string
type_synonym StockName = string
type_synonym addr = nat

text \<open>
  \<open>requestEntity\<close> (request\_entity.go, the branch with CPU accounting). Requests are
  shared through pointers and mutated in place, so stocks hold addresses and the
  request objects live in a store indexed by address.
\<close>

record requestEntity =
  number :: int
  nextBackoff :: Duration
  attempts :: int
  cpuSecondsRequired :: Duration
  cpuSecondsConsumed :: Duration
  startTime :: "Time option"

definition cpuSecondsRemaining :: "requestEntity \<Rightarrow> Duration" where
  "cpuSecondsRemaining re = wrap64 (cpuSecondsRequired re - cpuSecondsConsumed re)"

definition NewRequestEntity :: "int \<Rightarrow> requestEntity" where
  "NewRequestEntity reqNumber =
     \<lparr> number = reqNumber,
       nextBackoff = 100 * Millisecond,
       attempts = 0,
       cpuSecondsRequired = 100 * Millisecond,
       cpuSecondsConsumed = 0,
       startTime = None \<rparr>"

text \<open>
  A \<open>simulator.Entity\<close> interface value: a pointer to a \<open>requestEntity\<close>, or any other
  entity, of which only name and kind are visible (\<open>simulator.NewEntity\<close>).
\<close>

datatype Entity = RequestRef addr | NewEntity EntityName EntityKind

fun Kind :: "Entity \<Rightarrow> EntityKind" where
  "Kind (RequestRef a) = ''Request''"
| "Kind (NewEntity n k) = k"

datatype error =
    UnsupportedEntityKind
  | KindMismatch
  | TypeAssertionPanic
  | DifferentAutoscalerEntity
  | ScalePanic string
  | DuplicateTimestamp
  | HeapIsClosed

section \<open>Through stocks\<close>

text \<open>
  Modelled from the spec: \<open>simulator.ThroughStock\<close> and \<open>simulator.NewThroughStock\<close>
  belong to package \<open>simulator\<close>, which is not among the sources. Following sections 3
  and 4.2 of the specification a through stock is a FIFO container with a name and a
  kind tag: \<open>Add\<close> appends an entity of the stocked kind and rejects any other kind,
  \<open>Remove\<close> returns the earliest entity or nil when the stock is empty, \<open>Count\<close> is
  the number of entities held and \<open>EntitiesInStock\<close> is the sequence of references
  to them. \<open>Count\<close> is a \<open>uint64\<close> in the source; no stock holds that many
  entities, so counts are natural numbers here.
\<close>

record throughStock =
  stockName :: StockName
  stocksKind :: EntityKind
  stock :: "Entity list"

definition NewThroughStock :: "StockName \<Rightarrow> EntityKind \<Rightarrow> throughStock" where
  "NewThroughStock n k = \<lparr> stockName = n, stocksKind = k, stock = [] \<rparr>"

definition ts_Count :: "throughStock \<Rightarrow> nat" where
  "ts_Count s = length (stock s)"

definition ts_Add :: "Entity \<Rightarrow> throughStock \<Rightarrow> error + throughStock" where
  "ts_Add e s =
     (if Kind e \<noteq> stocksKind s then Inl KindMismatch
      else Inr (s\<lparr> stock := stock s @ [e] \<rparr>))"

definition ts_Remove :: "throughStock \<Rightarrow> Entity option \<times> throughStock" where
  "ts_Remove s =
     (case stock s of
        [] \<Rightarrow> (None, s)
      | e # es \<Rightarrow> (Some e, s\<lparr> stock := es \<rparr>))"

text \<open>A \<open>[]*simulator.Entity\<close>: \<open>None\<close> is the nil pointer.\<close>

definition ts_EntitiesInStock :: "throughStock \<Rightarrow> Entity option list" where
  "ts_EntitiesInStock s = map Some (stock s)"

section \<open>Movements and the environment\<close>

text \<open>The stocks a movement of this model can name.\<close>

datatype StockRef =
    ProcessingStock int
  | OnCpuStock int
  | RequestsComplete
  | DesiredSource
  | DesiredStock
  | DesiredSink
  | NamedStock StockName

record Movement =
  movKind :: string
  occursAt :: Time
  fromStock :: StockRef
  toStock :: StockRef

definition NewMovement :: "string \<Rightarrow> Time \<Rightarrow> StockRef \<Rightarrow> StockRef \<Rightarrow> Movement" where
  "NewMovement k t f g = \<lparr> movKind = k, occursAt = t, fromStock = f, toStock = g \<rparr>"

record CPUUtilization =
  cpuUtilization :: real
  calculatedAt :: Time

text \<open>
  The environment is the \<open>FakeEnvironment\<close> of fakes.go, the only implementation of
  \<open>simulator.Environment\<close> among the sources: \<open>AddToSchedule\<close> records the movement and
  reports success. The plugin is an oracle: \<open>Scale\<close> answers a replica count
  (\<open>int32\<close>) or fails with a message.
\<close>

record FakeEnvironment =
  Movements :: "Movement list"
  TheTime :: Time
  TheHaltTime :: Time
  TheCPUUtilizations :: "CPUUtilization list"
  ThePlugin :: "int \<Rightarrow> string + int"

definition AddToSchedule :: "Movement \<Rightarrow> FakeEnvironment \<Rightarrow> FakeEnvironment" where
  "AddToSchedule m fe = fe\<lparr> Movements := Movements fe @ [m] \<rparr>"

definition CurrentMovementTime :: "FakeEnvironment \<Rightarrow> Time" where
  "CurrentMovementTime fe = TheTime fe"

definition AppendCPUUtilization :: "CPUUtilization \<Rightarrow> FakeEnvironment \<Rightarrow> FakeEnvironment" where
  "AppendCPUUtilization c fe = fe\<lparr> TheCPUUtilizations := TheCPUUtilizations fe @ [c] \<rparr>"

section \<open>Sliding-window CPU usage\<close>

record cpuUsage =
  window :: Duration
  activeTimeSlices :: "(Time \<times> Time) list"

definition NewCpuUsage :: "Duration \<Rightarrow> cpuUsage" where
  "NewCpuUsage w = \<lparr> window = w, activeTimeSlices = [] \<rparr>"

definition cpu_active :: "Time \<Rightarrow> Time \<Rightarrow> cpuUsage \<Rightarrow> cpuUsage" where
  "cpu_active from to c = c\<lparr> activeTimeSlices := activeTimeSlices c @ [(from, to)] \<rparr>"

text \<open>The loop of \<open>trim\<close>; the last argument is the slice \<open>trimmed\<close> built so far.\<close>

fun trim_loop :: "Time \<Rightarrow> Duration \<Rightarrow> (Time \<times> Time) list \<Rightarrow> (Time \<times> Time) list \<Rightarrow> (Time \<times> Time) list" where
  "trim_loop now w [] trimmed = trimmed"
| "trim_loop now w (t # ts) trimmed =
     (if time_Before (snd t) (time_Add now (wrap64 (- w))) then trim_loop now w ts trimmed
      else if time_Before (fst t) (time_Add now (wrap64 (- w)))
           then trim_loop now w ts (trimmed @ [(time_Add now (wrap64 (- w)), snd t)])
           else trim_loop now w ts (trimmed @ [t]))"

definition trim :: "Time \<Rightarrow> cpuUsage \<Rightarrow> cpuUsage" where
  "trim now c = c\<lparr> activeTimeSlices := trim_loop now (window c) (activeTimeSlices c) [] \<rparr>"

text \<open>The loop of \<open>usage\<close> accumulating \<open>activeNanos\<close>, an \<open>int64\<close>.\<close>

fun activeNanos_loop :: "(Time \<times> Time) list \<Rightarrow> int \<Rightarrow> int" where
  "activeNanos_loop [] acc = acc"
| "activeNanos_loop (a # as) acc = activeNanos_loop as (wrap64 (acc + time_Sub (snd a) (fst a)))"

text \<open>
  \<open>usage\<close> trims the record in place and returns the quotient; the \<open>float64\<close>
  division is taken over the reals.
\<close>

definition usage :: "Time \<Rightarrow> cpuUsage \<Rightarrow> real \<times> cpuUsage" where
  "usage now c =
     (let c' = trim now c;
          activeNanos = activeNanos_loop (activeTimeSlices c') 0
      in (real_of_int activeNanos / real_of_int (window c'), c'))"

section \<open>The requests processing stock\<close>

text \<open>
  \<open>requestsProcessingStock\<close> in the version that tracks start times and CPU usage.
  The other version among the sources (requests\_processing.go) differs from it only
  in keeping no CPU usage record and in asking the environment for the current time
  at each use. The field \<open>requestHeap\<close> is the store of the request objects the
  stocks point to. \<open>Add\<close> returns the stock as it is after a successful call, or
  the error; an error from \<open>Add\<close> ends the run.
\<close>

record requestsProcessingStock =
  env :: FakeEnvironment
  replicaNumber :: int
  processesActive :: throughStock
  processesOnCpu :: throughStock
  processesTerminated :: throughStock
  rpsCpuUsage :: cpuUsage
  requestsComplete :: throughStock
  numRequestsSinceLast :: int
  replicaMaxRPSCapacity :: int
  requestHeap :: "addr \<Rightarrow> requestEntity"

definition NewRequestsProcessingStock ::
  "FakeEnvironment \<Rightarrow> int \<Rightarrow> throughStock \<Rightarrow> int \<Rightarrow> (addr \<Rightarrow> requestEntity) \<Rightarrow> requestsProcessingStock" where
  "NewRequestsProcessingStock e n requestSink cap h =
     \<lparr> env = e,
       replicaNumber = n,
       processesActive = NewThroughStock ''RequestsProcessing'' ''Request'',
       processesOnCpu = NewThroughStock ''RequestsProcessing'' ''Request'',
       processesTerminated = NewThroughStock ''RequestsProcessing'' ''Request'',
       rpsCpuUsage = NewCpuUsage (15 * Second),
       requestsComplete = requestSink,
       numRequestsSinceLast = 0,
       replicaMaxRPSCapacity = cap,
       requestHeap = h \<rparr>"

definition rps_Count :: "requestsProcessingStock \<Rightarrow> nat" where
  "rps_Count rps = ts_Count (processesActive rps) + ts_Count (processesOnCpu rps)"

text \<open>
  \<open>make\<close> with a length gives that many nil pointers; the two \<open>append\<close>s come after
  them.
\<close>

definition rps_EntitiesInStock :: "requestsProcessingStock \<Rightarrow> Entity option list" where
  "rps_EntitiesInStock rps =
     (let entities = replicate (ts_Count (processesActive rps) + ts_Count (processesOnCpu rps)) None;
          entities = entities @ ts_EntitiesInStock (processesActive rps);
          entities = entities @ ts_EntitiesInStock (processesOnCpu rps)
      in entities)"

definition rps_Remove :: "requestsProcessingStock \<Rightarrow> Entity option \<times> requestsProcessingStock" where
  "rps_Remove rps =
     (if ts_Count (processesTerminated rps) > 0
      then (case ts_Remove (processesTerminated rps) of
              (e, st) \<Rightarrow> (e, rps\<lparr> processesTerminated := st \<rparr>))
      else (None, rps))"

text \<open>First half of \<open>Add\<close>: "Enqueue or complete the request".\<close>

definition enqueueOrComplete ::
  "Entity \<Rightarrow> addr \<Rightarrow> Time \<Rightarrow> requestsProcessingStock \<Rightarrow> error + requestsProcessingStock" where
  "enqueueOrComplete entity a now rps =
     (if cpuSecondsRemaining (requestHeap rps a) > 0 then
        (case ts_Add entity (processesActive rps) of
           Inl err \<Rightarrow> Inl err
         | Inr st \<Rightarrow> Inr (rps\<lparr> processesActive := st \<rparr>))
      else
        (case ts_Add entity (processesTerminated rps) of
           Inl err \<Rightarrow> Inl err
         | Inr st \<Rightarrow>
             Inr (rps\<lparr> processesTerminated := st,
                       env := AddToSchedule
                                (NewMovement ''complete_request'' (time_Add now Nanosecond)
                                   (ProcessingStock (replicaNumber rps)) RequestsComplete)
                                (env rps) \<rparr>)))"

text \<open>
  Second half of \<open>Add\<close>: "Fill the CPU and schedule an interrupt". The request that is
  charged is the one taken from \<open>processesActive\<close>; the entity put on the CPU is the
  argument \<open>entity\<close> of \<open>Add\<close>, as in the source.
\<close>

definition fillCpu ::
  "Entity \<Rightarrow> Time \<Rightarrow> requestsProcessingStock \<Rightarrow> error + requestsProcessingStock" where
  "fillCpu entity now rps =
     (if ts_Count (processesOnCpu rps) = 0 \<and> ts_Count (processesActive rps) > 0 then
        (case ts_Remove (processesActive rps) of
           (Some (RequestRef r), act) \<Rightarrow>
             (let req = requestHeap rps r;
                  interruptAfter = cpuSecondsRemaining req;
                  interruptAfter = (if interruptAfter > 200 * Millisecond
                                    then 200 * Millisecond else interruptAfter);
                  interruptAt = time_Add now interruptAfter;
                  req = req\<lparr> cpuSecondsConsumed := wrap64 (cpuSecondsConsumed req + interruptAfter) \<rparr>;
                  rps = rps\<lparr> processesActive := act,
                             requestHeap := (requestHeap rps)(r := req),
                             env := AddToSchedule
                                      (NewMovement ''interrupt_process'' interruptAt
                                         (OnCpuStock (replicaNumber rps))
                                         (ProcessingStock (replicaNumber rps)))
                                      (env rps),
                             rpsCpuUsage := cpu_active now interruptAt (rpsCpuUsage rps) \<rparr>
              in (case ts_Add entity (processesOnCpu rps) of
                    Inl err \<Rightarrow> Inl err
                  | Inr st \<Rightarrow> Inr (rps\<lparr> processesOnCpu := st \<rparr>)))
         | _ \<Rightarrow> Inl TypeAssertionPanic)
      else Inr rps)"

definition rps_Add :: "Entity \<Rightarrow> requestsProcessingStock \<Rightarrow> error + requestsProcessingStock" where
  "rps_Add entity rps =
     (case entity of
        NewEntity n k \<Rightarrow> Inl UnsupportedEntityKind
      | RequestRef a \<Rightarrow>
          (let now = CurrentMovementTime (env rps);
               rps = (if startTime (requestHeap rps a) = None
                      then rps\<lparr> requestHeap :=
                                   (requestHeap rps)(a := (requestHeap rps a)\<lparr> startTime := Some now \<rparr>) \<rparr>
                      else rps)
           in (case enqueueOrComplete entity a now rps of
                 Inl err \<Rightarrow> Inl err
               | Inr rps \<Rightarrow> fillCpu entity now rps)))"

section \<open>The kernel driving one replica\<close>

text \<open>
  Modelled from the spec: the driver loop \<open>Environment.Run\<close> is in package
  \<open>simulator\<close>, not among the sources. By section 4.3 of the specification it advances
  the current time to the movement's time, removes an entity from the source stock
  (an empty source makes the movement ignored) and adds it to the destination stock;
  an error from \<open>Add\<close> ends the run. The three kinds of movement that touch a
  processing stock are an arrival from outside, \<open>interrupt_process\<close> (from the CPU
  stock back to the processing stock) and \<open>complete_request\<close> (from the processing
  stock to the completion sink).
\<close>

datatype movement_step =
    Arrive Entity Time
  | InterruptProcess Time
  | CompleteRequest Time

definition at_time :: "Time \<Rightarrow> requestsProcessingStock \<Rightarrow> requestsProcessingStock" where
  "at_time t rps = rps\<lparr> env := (env rps)\<lparr> TheTime := t \<rparr> \<rparr>"

fun execute :: "movement_step \<Rightarrow> requestsProcessingStock \<Rightarrow> error + requestsProcessingStock" where
  "execute (Arrive e t) rps = rps_Add e (at_time t rps)"
| "execute (InterruptProcess t) rps =
     (case ts_Remove (processesOnCpu (at_time t rps)) of
        (None, st) \<Rightarrow> Inr (at_time t rps)
      | (Some e, st) \<Rightarrow> rps_Add e ((at_time t rps)\<lparr> processesOnCpu := st \<rparr>))"
| "execute (CompleteRequest t) rps =
     (case rps_Remove (at_time t rps) of
        (None, rps') \<Rightarrow> Inr rps'
      | (Some e, rps') \<Rightarrow>
          (case ts_Add e (requestsComplete rps') of
             Inl err \<Rightarrow> Inl err
           | Inr sink \<Rightarrow> Inr (rps'\<lparr> requestsComplete := sink \<rparr>)))"

fun run :: "movement_step list \<Rightarrow> requestsProcessingStock \<Rightarrow> error + requestsProcessingStock" where
  "run [] rps = Inr rps"
| "run (m # ms) rps =
     (case execute m rps of
        Inl err \<Rightarrow> Inl err
      | Inr rps' \<Rightarrow> run ms rps')"

section \<open>The movement priority queue\<close>

text \<open>\<open>strconv.FormatInt\<close> in base 10.\<close>

definition digit_char :: "nat \<Rightarrow> char" where
  "digit_char d = ''0123456789'' ! d"

fun format_nat :: "nat \<Rightarrow> string" where
  "format_nat n = (if n < 10 then [digit_char n] else format_nat (n div 10) @ [digit_char (n mod 10)])"

declare format_nat.simps [simp del]

definition FormatInt :: "int \<Rightarrow> string" where
  "FormatInt i = (if i < 0 then CHR ''-'' # format_nat (nat (- i)) else format_nat (nat i))"

definition occursAtToKey :: "Movement \<Rightarrow> string" where
  "occursAtToKey mv = FormatInt (UnixNano (occursAt mv))"

definition leftMovementIsEarlier :: "Movement \<Rightarrow> Movement \<Rightarrow> bool" where
  "leftMovementIsEarlier l r = time_Before (occursAt l) (occursAt r)"

text \<open>
  \<open>cache.Heap\<close> comes from the Kubernetes client library, outside this repository.
  It is modelled by its contract, for the heap that \<open>NewMovementPriorityQueue\<close>
  creates (keys by \<open>occursAtToKey\<close>, order by \<open>leftMovementIsEarlier\<close>): the pending
  objects are kept with their keys in the order in which \<open>Pop\<close> would return them;
  \<open>GetByKey\<close> looks a key up; \<open>Add\<close> refuses with "heap is closed" once the heap has
  been closed (the same error that \<open>DequeueMovement\<close> tests for after \<open>Pop\<close>),
  replaces the object under a key already present, and inserts a new one otherwise.
\<close>

record cacheHeap =
  heapItems :: "(string \<times> Movement) list"
  heapClosed :: bool

fun heap_insert :: "string \<times> Movement \<Rightarrow> (string \<times> Movement) list \<Rightarrow> (string \<times> Movement) list" where
  "heap_insert x [] = [x]"
| "heap_insert x (y # ys) =
     (if leftMovementIsEarlier (snd x) (snd y) then x # y # ys else y # heap_insert x ys)"

definition heap_GetByKey :: "string \<Rightarrow> cacheHeap \<Rightarrow> Movement option \<times> bool" where
  "heap_GetByKey key h =
     (case map_of (heapItems h) key of
        None \<Rightarrow> (None, False)
      | Some obj \<Rightarrow> (Some obj, True))"

definition heap_Add :: "Movement \<Rightarrow> cacheHeap \<Rightarrow> error option \<times> cacheHeap" where
  "heap_Add obj h =
     (let key = occursAtToKey obj in
      if heapClosed h then (Some HeapIsClosed, h)
      else if map_of (heapItems h) key \<noteq> None
      then (None, h\<lparr> heapItems := heap_insert (key, obj) (filter (\<lambda>kv. fst kv \<noteq> key) (heapItems h)) \<rparr>)
      else (None, h\<lparr> heapItems := heap_insert (key, obj) (heapItems h) \<rparr>))"

definition heap_Close :: "cacheHeap \<Rightarrow> cacheHeap" where
  "heap_Close h = h\<lparr> heapClosed := True \<rparr>"

record movementPQ =
  heap :: cacheHeap

definition NewMovementPriorityQueue :: movementPQ where
  "NewMovementPriorityQueue = \<lparr> heap = \<lparr> heapItems = [], heapClosed = False \<rparr> \<rparr>"

text \<open>
  \<open>EnqueueMovement\<close> returns the error, if any, together with the queue afterwards.
  \<open>occursAtToKey\<close> and \<open>GetByKey\<close> never fail, so their error branches are absent.
\<close>

definition EnqueueMovement :: "Movement \<Rightarrow> movementPQ \<Rightarrow> error option \<times> movementPQ" where
  "EnqueueMovement movement mpq =
     (let key = occursAtToKey movement in
      case heap_GetByKey key (heap mpq) of
        (obj, exists) \<Rightarrow>
          if exists then (Some DuplicateTimestamp, mpq)
          else (case heap_Add movement (heap mpq) of
                  (err, h) \<Rightarrow> (err, mpq\<lparr> heap := h \<rparr>)))"

definition mpq_Close :: "movementPQ \<Rightarrow> movementPQ" where
  "mpq_Close mpq = mpq\<lparr> heap := heap_Close (heap mpq) \<rparr>"

definition mpq_IsClosed :: "movementPQ \<Rightarrow> bool" where
  "mpq_IsClosed mpq = heapClosed (heap mpq)"

text \<open>The pending movements, and the keys under which they are pending.\<close>

definition pending :: "movementPQ \<Rightarrow> Movement list" where
  "pending mpq = map snd (heapItems (heap mpq))"

definition pendingKeys :: "movementPQ \<Rightarrow> string list" where
  "pendingKeys mpq = map fst (heapItems (heap mpq))"

text \<open>
  The state of a queue between calls: every pending movement is stored under its own
  key, no key occurs twice, and no movement is earlier than one in front of it.
\<close>

definition mpq_inv :: "movementPQ \<Rightarrow> bool" where
  "mpq_inv mpq \<longleftrightarrow>
     list_all (\<lambda>kv. fst kv = occursAtToKey (snd kv)) (heapItems (heap mpq))
     \<and> distinct (pendingKeys mpq)
     \<and> sorted_wrt (\<lambda>l r. \<not> leftMovementIsEarlier r l) (pending mpq)"

section \<open>The autoscaler tick\<close>

text \<open>
  Modelled from the spec: \<open>ClusterModel\<close> and \<open>replicaEntity\<close> are declared in files
  that are not among the sources. The tick reads three things from the cluster: the
  Desired stock (through its \<open>Count\<close>), the entities of the active stock, and
  \<open>RecordToAutoscaler\<close>, which by section 4.6 of the specification takes a snapshot
  of per-replica statistics for the autoscaler; it is modelled as logging the time
  of the snapshot and leaving every stock as it is. Of a replica only the two CPU
  capacities are read. An entity of the active stock is a pointer to a
  \<open>replicaEntity\<close> or some other implementation of a replica (such as
  \<open>FakeReplica\<close>), on which the type assertion panics. The \<open>float64\<close> arithmetic
  is taken over the reals.
\<close>

record replicaEntity =
  occupiedCPUCapacityMillisPerSecond :: real
  totalCPUCapacityMillisPerSecond :: real

datatype ActiveEntity = ReplicaEntityPtr replicaEntity | FakeReplica

record ClusterModel =
  Desired :: throughStock
  ActiveStockEntities :: "ActiveEntity list"
  recordedToAutoscaler :: "Time list"

definition RecordToAutoscaler :: "Time \<Rightarrow> ClusterModel \<Rightarrow> ClusterModel" where
  "RecordToAutoscaler atTime c = c\<lparr> recordedToAutoscaler := recordedToAutoscaler c @ [atTime] \<rparr>"

record autoscalerTicktockStock =
  asts_env :: FakeEnvironment
  cluster :: ClusterModel
  autoscalerEntity :: Entity
  desiredSource :: throughStock
  desiredSink :: throughStock

definition NewAutoscalerTicktockStock ::
  "FakeEnvironment \<Rightarrow> Entity \<Rightarrow> ClusterModel \<Rightarrow> autoscalerTicktockStock" where
  "NewAutoscalerTicktockStock e scalerEntity c =
     \<lparr> asts_env = e,
       cluster = c,
       autoscalerEntity = scalerEntity,
       desiredSource = NewThroughStock ''DesiredSource'' ''Desired'',
       desiredSink = NewThroughStock ''DesiredSink'' ''Desired'' \<rparr>"

text \<open>The loop \<open>for i := int32(0); i < delta; i++\<close>.\<close>

function increase_loop ::
  "int \<Rightarrow> int \<Rightarrow> Time \<Rightarrow> autoscalerTicktockStock \<Rightarrow> error + autoscalerTicktockStock" where
  "increase_loop i delta currentTime asts =
     (if i < delta then
        (case ts_Add (NewEntity ''Desired'' ''Desired'') (desiredSource asts) of
           Inl err \<Rightarrow> Inl err
         | Inr src \<Rightarrow>
             increase_loop (i + 1) delta currentTime
               (asts\<lparr> desiredSource := src,
                      asts_env := AddToSchedule
                                    (NewMovement ''increase_desired'' (time_Add currentTime (1 * Nanosecond))
                                       DesiredSource DesiredStock)
                                    (asts_env asts) \<rparr>))
      else Inr asts)"
  by pat_completeness auto
termination
  by (relation "measure (\<lambda>(i, delta, currentTime, asts). nat (delta - i))") auto

text \<open>The loop \<open>for i := delta; i < 0; i++\<close>.\<close>

function reduce_loop :: "int \<Rightarrow> Time \<Rightarrow> autoscalerTicktockStock \<Rightarrow> autoscalerTicktockStock" where
  "reduce_loop i currentTime asts =
     (if i < 0 then
        reduce_loop (i + 1) currentTime
          (asts\<lparr> asts_env := AddToSchedule
                                (NewMovement ''reduce_desired'' (time_Add currentTime (1 * Nanosecond))
                                   DesiredStock DesiredSink)
                                (asts_env asts) \<rparr>)
      else asts)"
  by pat_completeness auto
termination
  by (relation "measure (\<lambda>(i, currentTime, asts). nat (- i))") auto

declare increase_loop.simps [simp del] reduce_loop.simps [simp del]

text \<open>
  The loop of \<open>calculateCPUUtilization\<close> over the entities of the active stock; the
  accumulator is \<open>(countActiveReplicas, totalCPUUtilization)\<close>.
\<close>

fun utilization_loop :: "ActiveEntity list \<Rightarrow> real \<times> real \<Rightarrow> error + real \<times> real" where
  "utilization_loop [] acc = Inr acc"
| "utilization_loop (en # ens) (countActiveReplicas, totalCPUUtilization) =
     (case en of
        ReplicaEntityPtr replica \<Rightarrow>
          utilization_loop ens
            (countActiveReplicas + 1,
             totalCPUUtilization +
               occupiedCPUCapacityMillisPerSecond replica * 100 / totalCPUCapacityMillisPerSecond replica)
      | FakeReplica \<Rightarrow> Inl TypeAssertionPanic)"

definition calculateCPUUtilization :: "autoscalerTicktockStock \<Rightarrow> error + autoscalerTicktockStock" where
  "calculateCPUUtilization asts =
     (case utilization_loop (ActiveStockEntities (cluster asts)) (0, 0) of
        Inl err \<Rightarrow> Inl err
      | Inr (countActiveReplicas, totalCPUUtilization) \<Rightarrow>
          if countActiveReplicas > 0
          then Inr (asts\<lparr> asts_env :=
                      AppendCPUUtilization
                        \<lparr> cpuUtilization = totalCPUUtilization / countActiveReplicas,
                          calculatedAt = CurrentMovementTime (asts_env asts) \<rparr>
                        (asts_env asts) \<rparr>)
          else Inr asts)"

text \<open>
  The tick body. \<open>delta\<close> is computed in \<open>int32\<close>: the count is converted and the
  difference wraps.
\<close>

definition tick_delta :: "int \<Rightarrow> autoscalerTicktockStock \<Rightarrow> int" where
  "tick_delta autoscalerDesired asts =
     wrap32 (autoscalerDesired - wrap32 (int (ts_Count (Desired (cluster asts)))))"

definition asts_Add :: "Entity \<Rightarrow> autoscalerTicktockStock \<Rightarrow> error + autoscalerTicktockStock" where
  "asts_Add entity asts =
     (if autoscalerEntity asts \<noteq> entity then Inl DifferentAutoscalerEntity
      else
        (let currentTime = CurrentMovementTime (asts_env asts);
             asts = asts\<lparr> cluster := RecordToAutoscaler currentTime (cluster asts) \<rparr>
         in case ThePlugin (asts_env asts) (UnixNano currentTime) of
              Inl msg \<Rightarrow> Inl (ScalePanic msg)
            | Inr autoscalerDesired \<Rightarrow>
                (let delta = tick_delta autoscalerDesired asts in
                 case (if delta > 0 then increase_loop 0 delta currentTime asts
                       else if delta < 0 then Inr (reduce_loop delta currentTime asts)
                       else Inr asts) of
                   Inl err \<Rightarrow> Inl err
                 | Inr asts \<Rightarrow> calculateCPUUtilization asts)))"

section \<open>Notions used in the statements\<close>

text \<open>
  A request is within its CPU budget when what it has consumed lies between zero and
  what it requires (and the requirement is an \<open>int64\<close>).
\<close>

definition budget_ok :: "requestEntity \<Rightarrow> bool" where
  "budget_ok re \<longleftrightarrow>
     0 \<le> cpuSecondsConsumed re \<and> cpuSecondsConsumed re \<le> cpuSecondsRequired re
     \<and> cpuSecondsRequired re \<le> maxDuration"

text \<open>
  The number of entities a processing stock holds: the distinct entities found in
  any of its three internal stocks.
\<close>

definition entitiesHeld :: "requestsProcessingStock \<Rightarrow> nat" where
  "entitiesHeld rps =
     length (remdups (stock (processesActive rps) @ stock (processesOnCpu rps)
                      @ stock (processesTerminated rps)))"

text \<open>
  The states in which \<open>Add\<close> cannot fail on a request: the three internal stocks
  stock requests, as \<open>NewRequestsProcessingStock\<close> makes them, and only requests
  wait in \<open>processesActive\<close>.
\<close>

fun isRequestRef :: "Entity \<Rightarrow> bool" where
  "isRequestRef (RequestRef a) = True"
| "isRequestRef (NewEntity n k) = False"

definition rps_wf :: "requestsProcessingStock \<Rightarrow> bool" where
  "rps_wf rps \<longleftrightarrow>
     stocksKind (processesActive rps) = ''Request''
     \<and> stocksKind (processesOnCpu rps) = ''Request''
     \<and> stocksKind (processesTerminated rps) = ''Request''
     \<and> list_all isRequestRef (stock (processesActive rps))"

text \<open>
  A small scenario: an environment at time zero, a store in which every address
  holds a request as \<open>NewRequestEntity\<close> makes it, and replica 0 over them.
\<close>

definition env0 :: FakeEnvironment where
  "env0 = \<lparr> Movements = [], TheTime = 0, TheHaltTime = 0, TheCPUUtilizations = [],
            ThePlugin = (\<lambda>t. Inr 0) \<rparr>"

definition fresh_requests :: "addr \<Rightarrow> requestEntity" where
  "fresh_requests a = NewRequestEntity (int a)"

definition replica0 :: requestsProcessingStock where
  "replica0 = NewRequestsProcessingStock env0 0 (NewThroughStock ''RequestsComplete'' ''Request'') 100
                fresh_requests"

text \<open>A movement of the traffic source at a given time, for the scenarios.\<close>

definition arrival :: "Time \<Rightarrow> Movement" where
  "arrival t = NewMovement ''arrive_at_routing_stock'' t (NamedStock ''TrafficSource'') (NamedStock ''RoutingStock'')"

text \<open>
  A tick scenario: the autoscaler entity, and a ticktock stock at time 2s + 1ns whose
  plugin answers \<open>scaleTo\<close>, over a cluster with \<open>n\<close> desired replicas and the
  given active replicas. One replica that uses half of its CPU capacity.
\<close>

definition scaler :: Entity where
  "scaler = NewEntity ''Autoscaler'' ''HPAAutoscaler''"

definition tick_scenario :: "int \<Rightarrow> nat \<Rightarrow> ActiveEntity list \<Rightarrow> autoscalerTicktockStock" where
  "tick_scenario scaleTo n active =
     NewAutoscalerTicktockStock
       (env0\<lparr> TheTime := 2000000001, ThePlugin := (\<lambda>t. Inr scaleTo) \<rparr>)
       scaler
       \<lparr> Desired = (NewThroughStock ''ReplicasDesired'' ''Desired'')
                     \<lparr> stock := replicate n (NewEntity ''Desired'' ''Desired'') \<rparr>,
         ActiveStockEntities = active,
         recordedToAutoscaler = [] \<rparr>"

definition half_busy :: replicaEntity where
  "half_busy = \<lparr> occupiedCPUCapacityMillisPerSecond = 500, totalCPUCapacityMillisPerSecond = 1000 \<rparr>"

text \<open>
  For the sliding window. Recorded intervals are in order when each starts no later
  than it ends and ends no later than the next one starts. \<open>trimmed\<close> says in the
  words of the specification what \<open>trim\<close> keeps: the intervals that do not end before
  the cutoff, with a start before the cutoff replaced by the cutoff.
  \<open>total_length\<close> is the sum of end minus start.
\<close>

definition slices_in_order :: "(Time \<times> Time) list \<Rightarrow> bool" where
  "slices_in_order xs \<longleftrightarrow>
     list_all (\<lambda>a. fst a \<le> snd a) xs \<and> sorted_wrt (\<lambda>a b. snd a \<le> fst b) xs"

definition trimmed :: "Time \<Rightarrow> (Time \<times> Time) list \<Rightarrow> (Time \<times> Time) list" where
  "trimmed cutoff xs = map (\<lambda>a. (max (fst a) cutoff, snd a)) (filter (\<lambda>a. \<not> snd a < cutoff) xs)"

definition total_length :: "(Time \<times> Time) list \<Rightarrow> int" where
  "total_length xs = (\<Sum>a\<leftarrow>xs. snd a - fst a)"

definition two_quanta :: cpuUsage where
  "two_quanta = \<lparr> window = 15 * Second, activeTimeSlices = [(0, 100000000), (100000000, 200000000)] \<rparr>"

text \<open>
  A replica kept busy: requests \<open>0, \<dots>, m\<close>, each as \<open>NewRequestEntity\<close> makes it,
  arrive one nanosecond apart, and the first \<open>j\<close> interrupts follow, 100ms apart.
  \<open>quanta n\<close> are the first \<open>n\<close> back-to-back intervals of 100ms, and
  \<open>queue_inv m j\<close> describes the replica after those movements.
\<close>

definition quanta :: "nat \<Rightarrow> (Time \<times> Time) list" where
  "quanta n = map (\<lambda>j. (int j * (100 * Millisecond), (int j + 1) * (100 * Millisecond))) [0..<n]"

definition saturating_steps :: "nat \<Rightarrow> nat \<Rightarrow> movement_step list" where
  "saturating_steps m j =
     map (\<lambda>k. Arrive (RequestRef k) (int k)) [0..<Suc m]
     @ map (\<lambda>i. InterruptProcess (int i * (100 * Millisecond))) [1..<Suc j]"

definition queue_inv :: "nat \<Rightarrow> nat \<Rightarrow> requestsProcessingStock \<Rightarrow> bool" where
  "queue_inv m j s \<longleftrightarrow>
     stock (processesActive s) = map RequestRef [Suc j..<Suc m]
     \<and> stock (processesOnCpu s) = [RequestRef 0]
     \<and> stocksKind (processesActive s) = ''Request''
     \<and> stocksKind (processesOnCpu s) = ''Request''
     \<and> stocksKind (processesTerminated s) = ''Request''
     \<and> (\<forall>a>j. cpuSecondsRequired (requestHeap s a) = 100 * Millisecond
               \<and> cpuSecondsConsumed (requestHeap s a) = 0)
     \<and> startTime (requestHeap s 0) = Some 0
     \<and> cpuSecondsRequired (requestHeap s 0) = 100 * Millisecond
     \<and> cpuSecondsConsumed (requestHeap s 0) = 100 * Millisecond
     \<and> rpsCpuUsage s = \<lparr> window = 15 * Second, activeTimeSlices = quanta (Suc j) \<rparr>"

section \<open>Properties of the requests processing stock\<close>

lemmas rps_eval =
  replica0_def env0_def fresh_requests_def NewRequestsProcessingStock_def
  NewThroughStock_def NewCpuUsage_def NewRequestEntity_def rps_Add_def enqueueOrComplete_def
  fillCpu_def ts_Add_def ts_Remove_def ts_Count_def rps_Remove_def at_time_def
  AddToSchedule_def CurrentMovementTime_def NewMovement_def cpu_active_def time_Add_def
  cpuSecondsRemaining_def wrap64_def Millisecond_def Second_def Nanosecond_def Let_def

lemma wrap64_id: "- (2 ^ 63) \<le> x \<Longrightarrow> x < 2 ^ 63 \<Longrightarrow> wrap64 x = x"
  unfolding wrap64_def by (simp add: mod_pos_pos_trivial)

lemma ts_Add_stock:
  "ts_Add e s = Inr s' \<Longrightarrow> stock s' = stock s @ [e]"
  by (auto simp: ts_Add_def split: if_splits)

lemma ts_Add_Count:
  "ts_Add e s = Inr s' \<Longrightarrow> ts_Count s' = Suc (ts_Count s)"
  by (auto simp: ts_Add_def ts_Count_def split: if_splits)

lemma ts_Remove_Count:
  "ts_Remove s = (x, s') \<Longrightarrow> ts_Count s' \<le> ts_Count s"
  by (auto simp: ts_Remove_def ts_Count_def split: list.splits)

subsection \<open>The CPU holds at most one entity\<close>

lemma enqueueOrComplete_onCpu:
  "enqueueOrComplete e a now rps = Inr rps' \<Longrightarrow> processesOnCpu rps' = processesOnCpu rps"
  by (auto simp: enqueueOrComplete_def split: if_splits sum.splits)

lemma fillCpu_onCpu:
  assumes "fillCpu e now rps = Inr rps'" and "ts_Count (processesOnCpu rps) \<le> 1"
  shows "ts_Count (processesOnCpu rps') \<le> 1"
  using assms
  by (auto simp: fillCpu_def Let_def dest!: ts_Add_Count
           split: if_splits sum.splits prod.splits option.splits Entity.splits)

lemma rps_Add_onCpu:
  assumes "rps_Add e rps = Inr rps'" and "ts_Count (processesOnCpu rps) \<le> 1"
  shows "ts_Count (processesOnCpu rps') \<le> 1"
proof (cases e)
  case (RequestRef a)
  with assms(1) obtain st mid where
    mid: "enqueueOrComplete e a (CurrentMovementTime (env rps)) st = Inr mid"
    and st: "processesOnCpu st = processesOnCpu rps"
    and fill: "fillCpu e (CurrentMovementTime (env rps)) mid = Inr rps'"
    by (auto simp: rps_Add_def Let_def split: sum.splits if_splits)
  from enqueueOrComplete_onCpu[OF mid] st assms(2)
  have "ts_Count (processesOnCpu mid) \<le> 1" by simp
  with fill show ?thesis by (rule fillCpu_onCpu)
next
  case (NewEntity n k)
  with assms(1) show ?thesis by (simp add: rps_Add_def)
qed

lemma execute_onCpu:
  assumes "execute m rps = Inr rps'" and "ts_Count (processesOnCpu rps) \<le> 1"
  shows "ts_Count (processesOnCpu rps') \<le> 1"
proof (cases m)
  case (Arrive e t)
  with assms(1) have "rps_Add e (at_time t rps) = Inr rps'" by simp
  then show ?thesis by (rule rps_Add_onCpu) (use assms(2) in \<open>simp add: at_time_def\<close>)
next
  case (InterruptProcess t)
  show ?thesis
  proof (cases "ts_Remove (processesOnCpu (at_time t rps))")
    case (Pair x st)
    then have le: "ts_Count st \<le> 1"
      using ts_Remove_Count[OF Pair] assms(2) by (simp add: at_time_def)
    show ?thesis
    proof (cases x)
      case None
      with Pair InterruptProcess assms show ?thesis by (auto simp: at_time_def)
    next
      case (Some e)
      with Pair InterruptProcess assms(1)
      have "rps_Add e ((at_time t rps)\<lparr> processesOnCpu := st \<rparr>) = Inr rps'" by simp
      then show ?thesis by (rule rps_Add_onCpu) (use le in simp)
    qed
  qed
next
  case (CompleteRequest t)
  with assms show ?thesis
    by (auto simp: at_time_def rps_Remove_def split: if_splits prod.splits option.splits sum.splits)
qed

lemma run_onCpu:
  "run ms rps = Inr rps' \<Longrightarrow> ts_Count (processesOnCpu rps) \<le> 1
     \<Longrightarrow> ts_Count (processesOnCpu rps') \<le> 1"
proof (induction ms arbitrary: rps)
  case Nil
  then show ?case by simp
next
  case (Cons m ms)
  then show ?case by (auto split: sum.splits dest: execute_onCpu)
qed

text \<open>
  Claim C4. In every state that a replica's processing stock reaches from its
  creation, through any sequence of arrivals, interrupts and completions executed by
  the kernel, the stock \<open>processesOnCpu\<close> holds at most one entity.
\<close>

theorem onCpu_at_most_one:
  assumes "run ms (NewRequestsProcessingStock e n requestSink cap h) = Inr rps"
  shows "ts_Count (processesOnCpu rps) \<le> 1"
  using assms
  by (rule run_onCpu) (simp add: NewRequestsProcessingStock_def NewThroughStock_def ts_Count_def)

theorem onCpu_at_most_one_witness:
  "\<exists>rps. run [Arrive (RequestRef 1) 0, Arrive (RequestRef 2) 1, InterruptProcess 100000000] replica0
            = Inr rps
         \<and> ts_Count (processesOnCpu rps) = 1 \<and> ts_Count (processesOnCpu rps) \<le> 1"
proof -
  obtain rps where
    r: "run [Arrive (RequestRef 1) 0, Arrive (RequestRef 2) 1, InterruptProcess 100000000] replica0
          = Inr rps"
    and c: "ts_Count (processesOnCpu rps) = 1"
    by (simp add: rps_eval)
  from onCpu_at_most_one[OF r[unfolded replica0_def]] r c show ?thesis by blast
qed

subsection \<open>The CPU budget\<close>

lemma NewRequestEntity_budget_ok: "budget_ok (NewRequestEntity n)"
  by (simp add: budget_ok_def NewRequestEntity_def Millisecond_def maxDuration_def)

lemma remaining_exact:
  assumes "budget_ok re"
  shows "cpuSecondsRemaining re = cpuSecondsRequired re - cpuSecondsConsumed re"
proof -
  from assms have "- (2 ^ 63) \<le> cpuSecondsRequired re - cpuSecondsConsumed re"
    and "cpuSecondsRequired re - cpuSecondsConsumed re < 2 ^ 63"
    by (auto simp: budget_ok_def maxDuration_def)
  then show ?thesis unfolding cpuSecondsRemaining_def by (rule wrap64_id)
qed

lemma charge_budget_ok:
  assumes ok: "budget_ok re"
    and q: "q = (if cpuSecondsRemaining re > 200 * Millisecond then 200 * Millisecond
                 else cpuSecondsRemaining re)"
  shows "budget_ok (re\<lparr> cpuSecondsConsumed := wrap64 (cpuSecondsConsumed re + q) \<rparr>)"
proof -
  have rem: "cpuSecondsRemaining re = cpuSecondsRequired re - cpuSecondsConsumed re"
    using ok by (rule remaining_exact)
  have q0: "0 \<le> q" and q1: "q \<le> cpuSecondsRequired re - cpuSecondsConsumed re"
    using ok q rem by (auto simp: budget_ok_def Millisecond_def split: if_splits)
  have "- (2 ^ 63) \<le> cpuSecondsConsumed re + q" and "cpuSecondsConsumed re + q < 2 ^ 63"
    using ok q0 q1 by (auto simp: budget_ok_def maxDuration_def)
  then have "wrap64 (cpuSecondsConsumed re + q) = cpuSecondsConsumed re + q"
    by (rule wrap64_id)
  with ok q0 q1 show ?thesis by (simp add: budget_ok_def)
qed

lemma enqueueOrComplete_heap:
  "enqueueOrComplete e a now rps = Inr rps' \<Longrightarrow> requestHeap rps' = requestHeap rps"
  by (auto simp: enqueueOrComplete_def split: if_splits sum.splits)

lemma fillCpu_budget:
  assumes "fillCpu e now rps = Inr rps'" and "\<forall>a. budget_ok (requestHeap rps a)"
  shows "\<forall>a. budget_ok (requestHeap rps' a)"
proof (cases "ts_Count (processesOnCpu rps) = 0 \<and> ts_Count (processesActive rps) > 0")
  case False
  with assms show ?thesis by (auto simp: fillCpu_def)
next
  case True
  with assms(1) obtain r where
    heap: "requestHeap rps' = (requestHeap rps)(r := (requestHeap rps r)\<lparr> cpuSecondsConsumed :=
             wrap64 (cpuSecondsConsumed (requestHeap rps r) +
               (if cpuSecondsRemaining (requestHeap rps r) > 200 * Millisecond
                then 200 * Millisecond else cpuSecondsRemaining (requestHeap rps r))) \<rparr>)"
    by (auto simp: fillCpu_def Let_def
             split: sum.splits prod.splits option.splits Entity.splits)
  show ?thesis
  proof
    fix a
    show "budget_ok (requestHeap rps' a)"
    proof (cases "a = r")
      case True
      have "budget_ok (requestHeap rps r)" using assms(2) by simp
      from charge_budget_ok[OF this refl] show ?thesis
        by (simp add: heap True)
    next
      case False
      with assms(2) show ?thesis by (simp add: heap)
    qed
  qed
qed

lemma startTime_budget_ok: "budget_ok (re\<lparr> startTime := t \<rparr>) = budget_ok re"
  by (simp add: budget_ok_def)

lemma rps_Add_budget:
  assumes "rps_Add e rps = Inr rps'" and "\<forall>a. budget_ok (requestHeap rps a)"
  shows "\<forall>a. budget_ok (requestHeap rps' a)"
proof (cases e)
  case (RequestRef a)
  with assms(1) obtain st mid where
    mid: "enqueueOrComplete e a (CurrentMovementTime (env rps)) st = Inr mid"
    and st: "requestHeap st = requestHeap rps \<or>
             requestHeap st = (requestHeap rps)(a := (requestHeap rps a)
                                 \<lparr> startTime := Some (CurrentMovementTime (env rps)) \<rparr>)"
    and fill: "fillCpu e (CurrentMovementTime (env rps)) mid = Inr rps'"
    by (auto simp: rps_Add_def Let_def split: sum.splits if_splits)
  from st assms(2) have "\<forall>b. budget_ok (requestHeap st b)"
    by (auto simp: startTime_budget_ok)
  with enqueueOrComplete_heap[OF mid] have "\<forall>b. budget_ok (requestHeap mid b)" by simp
  with fill show ?thesis by (rule fillCpu_budget)
next
  case (NewEntity n k)
  with assms(1) show ?thesis by (simp add: rps_Add_def)
qed

lemma execute_budget:
  assumes "execute m rps = Inr rps'" and "\<forall>a. budget_ok (requestHeap rps a)"
  shows "\<forall>a. budget_ok (requestHeap rps' a)"
proof (cases m)
  case (Arrive e t)
  with assms(1) have "rps_Add e (at_time t rps) = Inr rps'" by simp
  then show ?thesis by (rule rps_Add_budget) (use assms(2) in \<open>simp add: at_time_def\<close>)
next
  case (InterruptProcess t)
  show ?thesis
  proof (cases "ts_Remove (processesOnCpu (at_time t rps))")
    case (Pair x st)
    show ?thesis
    proof (cases x)
      case None
      with Pair InterruptProcess assms show ?thesis by (auto simp: at_time_def)
    next
      case (Some e)
      with Pair InterruptProcess assms(1)
      have "rps_Add e ((at_time t rps)\<lparr> processesOnCpu := st \<rparr>) = Inr rps'" by simp
      then show ?thesis by (rule rps_Add_budget) (use assms(2) in \<open>simp add: at_time_def\<close>)
    qed
  qed
next
  case (CompleteRequest t)
  with assms show ?thesis
    by (auto simp: at_time_def rps_Remove_def split: if_splits prod.splits option.splits sum.splits)
qed

lemma run_budget:
  "run ms rps = Inr rps' \<Longrightarrow> \<forall>a. budget_ok (requestHeap rps a)
     \<Longrightarrow> \<forall>a. budget_ok (requestHeap rps' a)"
proof (induction ms arbitrary: rps)
  case Nil
  then show ?case by simp
next
  case (Cons m ms)
  from Cons.prems(1) obtain mid where
    e: "execute m rps = Inr mid" and r: "run ms mid = Inr rps'"
    by (auto split: sum.splits)
  from execute_budget[OF e Cons.prems(2)] have "\<forall>a. budget_ok (requestHeap mid a)" .
  with r show ?case by (rule Cons.IH)
qed

text \<open>
  The budget inequality. Let every request start within its budget, as the requests
  made by \<open>NewRequestEntity\<close> do (nothing consumed, 100ms required). Then in every
  state that a replica's processing stock reaches from its creation, every request
  has \<open>cpuSecondsConsumed \<le> cpuSecondsRequired\<close>: the only write to
  \<open>cpuSecondsConsumed\<close> adds the smaller of the remaining CPU time and 200ms.
\<close>

theorem cpu_budget_respected:
  assumes "\<forall>a. budget_ok (h a)"
    and "run ms (NewRequestsProcessingStock e n requestSink cap h) = Inr rps"
  shows "cpuSecondsConsumed (requestHeap rps a) \<le> cpuSecondsRequired (requestHeap rps a)"
proof -
  have "\<forall>a. budget_ok (requestHeap (NewRequestsProcessingStock e n requestSink cap h) a)"
    using assms(1) by (simp add: NewRequestsProcessingStock_def)
  with assms(2) have "\<forall>a. budget_ok (requestHeap rps a)" by (rule run_budget)
  then show ?thesis by (simp add: budget_ok_def)
qed

theorem cpu_budget_respected_witness:
  "(\<forall>a. budget_ok (fresh_requests a))
   \<and> (\<exists>rps. run [Arrive (RequestRef 1) 0, Arrive (RequestRef 2) 1, InterruptProcess 100000000] replica0
               = Inr rps
            \<and> cpuSecondsConsumed (requestHeap rps 2) = 100000000
            \<and> cpuSecondsConsumed (requestHeap rps 2) \<le> cpuSecondsRequired (requestHeap rps 2))"
proof -
  have ok: "\<forall>a. budget_ok (fresh_requests a)"
    by (simp add: fresh_requests_def NewRequestEntity_budget_ok)
  obtain rps where
    r: "run [Arrive (RequestRef 1) 0, Arrive (RequestRef 2) 1, InterruptProcess 100000000] replica0
          = Inr rps"
    and c: "cpuSecondsConsumed (requestHeap rps 2) = 100000000"
    by (simp add: rps_eval)
  from cpu_budget_respected[OF ok r[unfolded replica0_def], of 2] ok r c show ?thesis by blast
qed

text \<open>
  Claim C3. The claim fails on the code in its second half: a request is put on the
  CPU with no CPU time remaining. Requests 1 and 2 arrive at an idle replica;
  request 1 runs and uses up its 100ms. At the interrupt request 1 is added again
  and, finished, goes to \<open>processesTerminated\<close>; the CPU is idle and request 2
  waits, so the CPU is filled, and the entity put on it is request 1, whose
  remaining CPU time is 0. Both requests stay within their budgets.
\<close>

theorem finished_request_put_on_cpu:
  "\<not> isl (run [Arrive (RequestRef 1) 0, Arrive (RequestRef 2) 1, InterruptProcess 100000000] replica0)
   \<and> stock (processesOnCpu
        (projr (run [Arrive (RequestRef 1) 0, Arrive (RequestRef 2) 1, InterruptProcess 100000000] replica0)))
       = [RequestRef 1]
   \<and> stock (processesTerminated
        (projr (run [Arrive (RequestRef 1) 0, Arrive (RequestRef 2) 1, InterruptProcess 100000000] replica0)))
       = [RequestRef 1]
   \<and> cpuSecondsRemaining (requestHeap
        (projr (run [Arrive (RequestRef 1) 0, Arrive (RequestRef 2) 1, InterruptProcess 100000000] replica0)) 1)
       = 0
   \<and> \<not> 0 < cpuSecondsRemaining (requestHeap
        (projr (run [Arrive (RequestRef 1) 0, Arrive (RequestRef 2) 1]
                  replica0)) 1)
   \<and> cpuSecondsConsumed (requestHeap
        (projr (run [Arrive (RequestRef 1) 0, Arrive (RequestRef 2) 1, InterruptProcess 100000000] replica0)) 1)
       = cpuSecondsRequired (requestHeap
        (projr (run [Arrive (RequestRef 1) 0, Arrive (RequestRef 2) 1, InterruptProcess 100000000] replica0)) 1)
   \<and> cpuSecondsConsumed (requestHeap
        (projr (run [Arrive (RequestRef 1) 0, Arrive (RequestRef 2) 1, InterruptProcess 100000000] replica0)) 2)
       = cpuSecondsRequired (requestHeap
        (projr (run [Arrive (RequestRef 1) 0, Arrive (RequestRef 2) 1, InterruptProcess 100000000] replica0)) 2)"
  by (simp add: rps_eval)

subsection \<open>Admission: enqueue or complete\<close>

lemma New_wf: "rps_wf (NewRequestsProcessingStock e n requestSink cap h)"
  by (simp add: rps_wf_def NewRequestsProcessingStock_def NewThroughStock_def)

lemma remaining_startTime [simp]:
  "cpuSecondsRemaining (re\<lparr> startTime := t \<rparr>) = cpuSecondsRemaining re"
  by (simp add: cpuSecondsRemaining_def)

lemma ts_Remove_stock:
  "ts_Remove s = (x, s') \<Longrightarrow> stock s' = tl (stock s) \<and> stocksKind s' = stocksKind s"
  by (auto simp: ts_Remove_def split: list.splits)

lemma list_all_tl: "list_all P xs \<Longrightarrow> list_all P (tl xs)"
  by (cases xs) auto

lemma ts_Add_kind:
  "ts_Add e s = Inr s' \<Longrightarrow> stocksKind s' = stocksKind s"
  by (auto simp: ts_Add_def split: if_splits)

lemma enqueueOrComplete_wf:
  assumes "enqueueOrComplete (RequestRef a) a now rps = Inr rps'" and "rps_wf rps"
  shows "rps_wf rps'"
  using assms
  by (auto simp: enqueueOrComplete_def rps_wf_def split: if_splits sum.splits
           dest: ts_Add_kind ts_Add_stock)

lemma fillCpu_wf:
  assumes "fillCpu e now rps = Inr rps'" and "rps_wf rps"
  shows "rps_wf rps'"
proof (cases "ts_Count (processesOnCpu rps) = 0 \<and> ts_Count (processesActive rps) > 0")
  case False
  with assms show ?thesis by (auto simp: fillCpu_def)
next
  case True
  with assms(1) obtain x act st where
    rem: "ts_Remove (processesActive rps) = (x, act)"
    and add: "ts_Add e (processesOnCpu rps) = Inr st"
    and act: "processesActive rps' = act"
    and cpu: "processesOnCpu rps' = st"
    and ter: "processesTerminated rps' = processesTerminated rps"
    by (auto simp: fillCpu_def Let_def
             split: sum.splits prod.splits option.splits Entity.splits)
  from ts_Remove_stock[OF rem] ts_Add_kind[OF add] assms(2) act cpu ter
  show ?thesis by (auto simp: rps_wf_def intro: list_all_tl)
qed

lemma rps_Add_wf:
  assumes "rps_Add e rps = Inr rps'" and "rps_wf rps"
  shows "rps_wf rps'"
proof (cases e)
  case (RequestRef a)
  with assms(1) obtain st mid where
    mid: "enqueueOrComplete (RequestRef a) a (CurrentMovementTime (env rps)) st = Inr mid"
    and st: "rps_wf st = rps_wf rps"
    and fill: "fillCpu e (CurrentMovementTime (env rps)) mid = Inr rps'"
    by (auto simp: rps_Add_def Let_def rps_wf_def split: sum.splits if_splits)
  from enqueueOrComplete_wf[OF mid] st assms(2) have "rps_wf mid" by simp
  with fill show ?thesis by (rule fillCpu_wf)
next
  case (NewEntity n k)
  with assms(1) show ?thesis by (simp add: rps_Add_def)
qed

lemma execute_wf:
  assumes "execute m rps = Inr rps'" and "rps_wf rps"
  shows "rps_wf rps'"
proof (cases m)
  case (Arrive e t)
  with assms(1) have "rps_Add e (at_time t rps) = Inr rps'" by simp
  then show ?thesis by (rule rps_Add_wf) (use assms(2) in \<open>simp add: at_time_def rps_wf_def\<close>)
next
  case (InterruptProcess t)
  show ?thesis
  proof (cases "ts_Remove (processesOnCpu (at_time t rps))")
    case (Pair x st)
    then have k: "stocksKind st = stocksKind (processesOnCpu rps)"
      by (auto simp: ts_Remove_def at_time_def split: list.splits)
    show ?thesis
    proof (cases x)
      case None
      with Pair InterruptProcess assms show ?thesis by (auto simp: at_time_def rps_wf_def)
    next
      case (Some e)
      with Pair InterruptProcess assms(1)
      have "rps_Add e ((at_time t rps)\<lparr> processesOnCpu := st \<rparr>) = Inr rps'" by simp
      then show ?thesis
        by (rule rps_Add_wf) (use assms(2) k in \<open>simp add: at_time_def rps_wf_def\<close>)
    qed
  qed
next
  case (CompleteRequest t)
  with assms show ?thesis
    by (auto simp: at_time_def rps_Remove_def rps_wf_def ts_Remove_def
        split: if_splits prod.splits option.splits sum.splits list.splits)
qed

lemma run_wf:
  "run ms rps = Inr rps' \<Longrightarrow> rps_wf rps \<Longrightarrow> rps_wf rps'"
proof (induction ms arbitrary: rps)
  case Nil
  then show ?case by simp
next
  case (Cons m ms)
  from Cons.prems(1) obtain mid where
    e: "execute m rps = Inr mid" and r: "run ms mid = Inr rps'"
    by (auto split: sum.splits)
  from execute_wf[OF e Cons.prems(2)] have "rps_wf mid" .
  with r show ?case by (rule Cons.IH)
qed

text \<open>
  Claim C2. Adding a request to a processing stock succeeds, and: if the request has
  CPU time remaining it is appended to \<open>processesActive\<close> (from whose head the
  CPU is then filled when it is idle), \<open>processesTerminated\<close> is left alone and no
  \<open>complete_request\<close> movement is scheduled; otherwise it is appended to
  \<open>processesTerminated\<close> and the next movement scheduled is a \<open>complete_request\<close>
  from this stock to the completion sink, one nanosecond after the current time.
\<close>

theorem request_enqueued_or_completed:
  assumes wf: "rps_wf rps"
  shows "\<exists>rps'. rps_Add (RequestRef a) rps = Inr rps' \<and>
    (if 0 < cpuSecondsRemaining (requestHeap rps a)
     then stock (processesActive rps') =
            (if stock (processesOnCpu rps) = []
             then tl (stock (processesActive rps) @ [RequestRef a])
             else stock (processesActive rps) @ [RequestRef a])
          \<and> stock (processesTerminated rps') = stock (processesTerminated rps)
          \<and> filter (\<lambda>m. movKind m = ''complete_request'') (Movements (env rps'))
              = filter (\<lambda>m. movKind m = ''complete_request'') (Movements (env rps))
     else stock (processesTerminated rps') = stock (processesTerminated rps) @ [RequestRef a]
          \<and> take (Suc (length (Movements (env rps)))) (Movements (env rps'))
              = Movements (env rps) @
                [NewMovement ''complete_request''
                   (time_Add (CurrentMovementTime (env rps)) Nanosecond)
                   (ProcessingStock (replicaNumber rps)) RequestsComplete])"
proof (cases "stock (processesActive rps)")
  case Nil
  with wf show ?thesis
    by (auto simp: rps_wf_def rps_Add_def enqueueOrComplete_def fillCpu_def ts_Add_def
          ts_Remove_def ts_Count_def AddToSchedule_def NewMovement_def Let_def)
next
  case (Cons x xs)
  with wf obtain b where x: "x = RequestRef b"
    by (cases x) (auto simp: rps_wf_def)
  with Cons wf show ?thesis
    by (auto simp: rps_wf_def rps_Add_def enqueueOrComplete_def fillCpu_def ts_Add_def
          ts_Remove_def ts_Count_def AddToSchedule_def NewMovement_def Let_def)
qed


theorem request_enqueued_or_completed_witness:
  "rps_wf replica0
   \<and> 0 < cpuSecondsRemaining (requestHeap replica0 1)
   \<and> (\<exists>rps'. rps_Add (RequestRef 1) replica0 = Inr rps'
        \<and> stock (processesActive rps') = tl ([] @ [RequestRef 1])
        \<and> stock (processesTerminated rps') = [])
   \<and> rps_wf (at_time 100000000 (projr (rps_Add (RequestRef 1) replica0)))
   \<and> cpuSecondsRemaining (requestHeap (at_time 100000000 (projr (rps_Add (RequestRef 1) replica0))) 1) = 0
   \<and> (\<exists>rps'. rps_Add (RequestRef 1) (at_time 100000000 (projr (rps_Add (RequestRef 1) replica0))) = Inr rps'
        \<and> stock (processesTerminated rps') = [RequestRef 1]
        \<and> Movements (env rps') =
            [NewMovement ''interrupt_process'' 100000000 (OnCpuStock 0) (ProcessingStock 0),
             NewMovement ''complete_request'' 100000001 (ProcessingStock 0) RequestsComplete])"
proof -
  have wf0: "rps_wf replica0"
    by (simp add: rps_wf_def rps_eval)
  have wf1: "rps_wf (at_time 100000000 (projr (rps_Add (RequestRef 1) replica0)))"
    by (simp add: rps_wf_def rps_eval)
  have rem0: "0 < cpuSecondsRemaining (requestHeap replica0 1)"
    by (simp add: rps_eval)
  have rem1: "cpuSecondsRemaining (requestHeap (at_time 100000000 (projr (rps_Add (RequestRef 1) replica0))) 1) = 0"
    by (simp add: rps_eval)
  have s0: "stock (processesActive replica0) = []" "stock (processesOnCpu replica0) = []"
    "stock (processesTerminated replica0) = []"
    by (simp_all add: rps_eval)
  have s1: "stock (processesTerminated (at_time 100000000 (projr (rps_Add (RequestRef 1) replica0)))) = []"
    "Movements (env (at_time 100000000 (projr (rps_Add (RequestRef 1) replica0))))
       = [NewMovement ''interrupt_process'' 100000000 (OnCpuStock 0) (ProcessingStock 0)]"
    "CurrentMovementTime (env (at_time 100000000 (projr (rps_Add (RequestRef 1) replica0)))) = 100000000"
    "replicaNumber (at_time 100000000 (projr (rps_Add (RequestRef 1) replica0))) = 0"
    by (simp_all add: rps_eval)
  from request_enqueued_or_completed[OF wf0, of 1] rem0 s0
  have a: "\<exists>rps'. rps_Add (RequestRef 1) replica0 = Inr rps'
        \<and> stock (processesActive rps') = tl ([] @ [RequestRef 1])
        \<and> stock (processesTerminated rps') = []"
    by auto
  from request_enqueued_or_completed[OF wf1, of 1] rem1 s1
  obtain rps' where b: "rps_Add (RequestRef 1) (at_time 100000000 (projr (rps_Add (RequestRef 1) replica0))) = Inr rps'"
        "stock (processesTerminated rps') = [RequestRef 1]"
    by auto
  have c: "Movements (env (projr (rps_Add (RequestRef 1) (at_time 100000000 (projr (rps_Add (RequestRef 1) replica0)))))) =
            [NewMovement ''interrupt_process'' 100000000 (OnCpuStock 0) (ProcessingStock 0),
             NewMovement ''complete_request'' 100000001 (ProcessingStock 0) RequestsComplete]"
    by (simp add: rps_eval)
  from b c have "\<exists>rps'. rps_Add (RequestRef 1) (at_time 100000000 (projr (rps_Add (RequestRef 1) replica0))) = Inr rps'
        \<and> stock (processesTerminated rps') = [RequestRef 1]
        \<and> Movements (env rps') =
            [NewMovement ''interrupt_process'' 100000000 (OnCpuStock 0) (ProcessingStock 0),
             NewMovement ''complete_request'' 100000001 (ProcessingStock 0) RequestsComplete]"
    by auto
  with wf0 wf1 rem0 rem1 a show ?thesis by blast
qed


subsection \<open>Filling the CPU\<close>

text \<open>
  Claim C1. The claim fails on the code. Requests 1 and 2 arrive at an idle replica;
  request 1 runs and uses up its 100ms, request 2 waits. At the interrupt request 1
  is added again: it goes to \<open>processesTerminated\<close>, request 2 is taken from
  \<open>processesActive\<close> and charged its quantum of 100ms, with the interrupt
  scheduled at now + 100ms, but the entity put on the CPU is request 1 (the argument
  of \<open>Add\<close>), whose consumption does not change and whose remaining CPU time is 0.
\<close>

theorem cpu_fill_charges_head_not_entity:
  "\<exists>before after.
     run [Arrive (RequestRef 1) 0, Arrive (RequestRef 2) 1] replica0 = Inr before
     \<and> execute (InterruptProcess 100000000) before = Inr after
     \<and> stock (processesOnCpu before) = [RequestRef 1]
     \<and> stock (processesActive before) = [RequestRef 2]
     \<and> cpuSecondsRemaining (requestHeap before 1) = 0
     \<and> cpuSecondsRemaining (requestHeap before 2) = 100000000
     \<and> stock (processesOnCpu after) = [RequestRef 1]
     \<and> stock (processesActive after) = []
     \<and> stock (processesTerminated after) = [RequestRef 1]
     \<and> cpuSecondsConsumed (requestHeap after 1) = cpuSecondsConsumed (requestHeap before 1)
     \<and> cpuSecondsConsumed (requestHeap after 2) = cpuSecondsConsumed (requestHeap before 2) + 100000000
     \<and> last (Movements (env after))
         = NewMovement ''interrupt_process'' 200000000 (OnCpuStock 0) (ProcessingStock 0)"
  by (simp add: rps_eval)


subsection \<open>Counting and listing the entities\<close>

text \<open>
  Claim C10. \<open>EntitiesInStock\<close> returns twice as many pointers as there are
  entities in \<open>processesActive\<close> and \<open>processesOnCpu\<close>; the first half are nil and
  the second half point to those entities.
\<close>

theorem entities_in_stock_nil_prefix:
  "length (rps_EntitiesInStock rps) = 2 * (ts_Count (processesActive rps) + ts_Count (processesOnCpu rps))
   \<and> take (ts_Count (processesActive rps) + ts_Count (processesOnCpu rps)) (rps_EntitiesInStock rps)
       = replicate (ts_Count (processesActive rps) + ts_Count (processesOnCpu rps)) None
   \<and> drop (ts_Count (processesActive rps) + ts_Count (processesOnCpu rps)) (rps_EntitiesInStock rps)
       = map Some (stock (processesActive rps) @ stock (processesOnCpu rps))"
  by (simp add: rps_EntitiesInStock_def ts_EntitiesInStock_def ts_Count_def Let_def)

text \<open>
  Claim C8, as the code has it. In every state that a replica's processing stock
  reaches from its creation, \<open>Count\<close> is the number of entries of
  \<open>processesActive\<close>, plus one when an entity is on the CPU. The entries of
  \<open>processesTerminated\<close> are not counted, although they are what \<open>Remove\<close>
  hands out: \<open>Remove\<close> returns nothing when \<open>processesTerminated\<close> is empty, and
  otherwise returns its earliest entry and leaves \<open>Count\<close> as it was.
\<close>

theorem count_leaves_out_terminated:
  assumes "run ms (NewRequestsProcessingStock e n requestSink cap h) = Inr rps"
  shows "rps_Count rps =
           length (stock (processesActive rps)) + (if stock (processesOnCpu rps) = [] then 0 else 1)
     \<and> (case stock (processesTerminated rps) of
          [] \<Rightarrow> rps_Remove rps = (None, rps)
        | x # xs \<Rightarrow>
            fst (rps_Remove rps) = Some x
            \<and> stock (processesTerminated (snd (rps_Remove rps))) = xs
            \<and> stock (processesActive (snd (rps_Remove rps))) = stock (processesActive rps)
            \<and> stock (processesOnCpu (snd (rps_Remove rps))) = stock (processesOnCpu rps)
            \<and> rps_Count (snd (rps_Remove rps)) = rps_Count rps)"
proof -
  have "ts_Count (processesOnCpu rps) \<le> 1"
    using assms
    by (rule run_onCpu) (simp add: NewRequestsProcessingStock_def NewThroughStock_def ts_Count_def)
  then have "length (stock (processesOnCpu rps)) = (if stock (processesOnCpu rps) = [] then 0 else 1)"
    by (cases "stock (processesOnCpu rps)") (simp_all add: ts_Count_def)
  then have count: "rps_Count rps =
           length (stock (processesActive rps)) + (if stock (processesOnCpu rps) = [] then 0 else 1)"
    by (simp add: rps_Count_def ts_Count_def)
  have remove: "case stock (processesTerminated rps) of
          [] \<Rightarrow> rps_Remove rps = (None, rps)
        | x # xs \<Rightarrow>
            fst (rps_Remove rps) = Some x
            \<and> stock (processesTerminated (snd (rps_Remove rps))) = xs
            \<and> stock (processesActive (snd (rps_Remove rps))) = stock (processesActive rps)
            \<and> stock (processesOnCpu (snd (rps_Remove rps))) = stock (processesOnCpu rps)
            \<and> rps_Count (snd (rps_Remove rps)) = rps_Count rps"
    by (cases "stock (processesTerminated rps)")
       (simp_all add: rps_Remove_def ts_Remove_def ts_Count_def rps_Count_def)
  from count remove show ?thesis by blast
qed

theorem count_leaves_out_terminated_witness:
  "\<exists>rps. run [Arrive (RequestRef 1) 0, Arrive (RequestRef 2) 1, InterruptProcess 100000000] replica0
            = Inr rps
     \<and> stock (processesActive rps) = []
     \<and> stock (processesOnCpu rps) = [RequestRef 1]
     \<and> stock (processesTerminated rps) = [RequestRef 1]
     \<and> rps_Count rps = 1
     \<and> fst (rps_Remove rps) = Some (RequestRef 1)
     \<and> stock (processesTerminated (snd (rps_Remove rps))) = []
     \<and> rps_Count (snd (rps_Remove rps)) = 1"
proof -
  obtain rps where
    r: "run [Arrive (RequestRef 1) 0, Arrive (RequestRef 2) 1, InterruptProcess 100000000] replica0
          = Inr rps"
    and s: "stock (processesActive rps) = []" "stock (processesOnCpu rps) = [RequestRef 1]"
      "stock (processesTerminated rps) = [RequestRef 1]"
    by (simp add: rps_eval)
  from count_leaves_out_terminated[OF r[unfolded replica0_def]] s
  have "rps_Count rps = 1" "fst (rps_Remove rps) = Some (RequestRef 1)"
    "stock (processesTerminated (snd (rps_Remove rps))) = []"
    "rps_Count (snd (rps_Remove rps)) = 1"
    by simp_all
  with r s show ?thesis by blast
qed

text \<open>
  Claim C8 as stated fails: after a request has arrived and used its CPU time, it
  waits in \<open>processesTerminated\<close>; the stock holds one entity and \<open>Count\<close> is 0.
\<close>

theorem count_is_not_entities_held:
  "\<not> isl (run [Arrive (RequestRef 1) 0, InterruptProcess 100000000] replica0)
   \<and> stock (processesActive (projr (run [Arrive (RequestRef 1) 0, InterruptProcess 100000000] replica0)))
       = []
   \<and> stock (processesOnCpu (projr (run [Arrive (RequestRef 1) 0, InterruptProcess 100000000] replica0)))
       = []
   \<and> stock (processesTerminated (projr (run [Arrive (RequestRef 1) 0, InterruptProcess 100000000] replica0)))
       = [RequestRef 1]
   \<and> rps_Count (projr (run [Arrive (RequestRef 1) 0, InterruptProcess 100000000] replica0)) = 0
   \<and> entitiesHeld (projr (run [Arrive (RequestRef 1) 0, InterruptProcess 100000000] replica0)) = 1
   \<and> rps_Count (projr (run [Arrive (RequestRef 1) 0, InterruptProcess 100000000] replica0))
       \<noteq> entitiesHeld (projr (run [Arrive (RequestRef 1) 0, InterruptProcess 100000000] replica0))"
  by (simp add: rps_eval rps_Count_def entitiesHeld_def)

section \<open>Properties of the movement priority queue\<close>

subsection \<open>Keys determine the nanosecond\<close>

lemma below_ten:
  "(d::nat) < 10 \<Longrightarrow> d = 0 \<or> d = 1 \<or> d = 2 \<or> d = 3 \<or> d = 4 \<or> d = 5 \<or> d = 6 \<or> d = 7 \<or> d = 8 \<or> d = 9"
  by arith

lemma digit_char_inj:
  "a < 10 \<Longrightarrow> b < 10 \<Longrightarrow> digit_char a = digit_char b \<Longrightarrow> a = b"
  by (drule below_ten, drule below_ten) (auto simp: digit_char_def)

lemma digit_char_not_minus: "d < 10 \<Longrightarrow> digit_char d \<noteq> CHR ''-''"
  by (drule below_ten) (auto simp: digit_char_def)

lemma format_nat_nonempty: "format_nat n \<noteq> []"
  by (subst format_nat.simps) simp

lemma format_nat_digits: "c \<in> set (format_nat n) \<Longrightarrow> \<exists>d<10. c = digit_char d"
proof (induction n rule: format_nat.induct)
  case (1 n)
  show ?case
  proof (cases "n < 10")
    case True
    with "1.prems" show ?thesis by (subst (asm) format_nat.simps) auto
  next
    case False
    from "1.prems" have "c \<in> set (format_nat (n div 10)) \<or> c = digit_char (n mod 10)"
      using False by (subst (asm) format_nat.simps) auto
    then show ?thesis
    proof
      assume "c \<in> set (format_nat (n div 10))"
      with False "1.IH" show ?thesis by simp
    next
      assume "c = digit_char (n mod 10)"
      moreover have "n mod 10 < 10" by simp
      ultimately show ?thesis by blast
    qed
  qed
qed

lemma format_nat_inj: "format_nat n = format_nat m \<Longrightarrow> n = m"
proof (induction n arbitrary: m rule: format_nat.induct)
  case (1 n)
  show ?case
  proof (cases "n < 10")
    case n: True
    show ?thesis
    proof (cases "m < 10")
      case True
      with n "1.prems" have "digit_char n = digit_char m"
        by (simp add: format_nat.simps[of n] format_nat.simps[of m])
      with n True show ?thesis by (rule digit_char_inj)
    next
      case False
      with n "1.prems" have "[digit_char n] = format_nat (m div 10) @ [digit_char (m mod 10)]"
        by (simp add: format_nat.simps[of n] format_nat.simps[of m])
      then have "format_nat (m div 10) = []" by simp
      with format_nat_nonempty show ?thesis by blast
    qed
  next
    case n: False
    show ?thesis
    proof (cases "m < 10")
      case True
      with n "1.prems" have "format_nat (n div 10) @ [digit_char (n mod 10)] = [digit_char m]"
        by (simp add: format_nat.simps[of n] format_nat.simps[of m])
      then have "format_nat (n div 10) = []" by simp
      with format_nat_nonempty show ?thesis by blast
    next
      case False
      with n "1.prems" have
        "format_nat (n div 10) @ [digit_char (n mod 10)] = format_nat (m div 10) @ [digit_char (m mod 10)]"
        by (simp add: format_nat.simps[of n] format_nat.simps[of m])
      then have a: "format_nat (n div 10) = format_nat (m div 10)"
        and b: "digit_char (n mod 10) = digit_char (m mod 10)" by simp_all
      from "1.IH"[OF n a] have d: "n div 10 = m div 10" .
      from b have r: "n mod 10 = m mod 10" by (rule digit_char_inj[rotated 2]) simp_all
      from d r show ?thesis by (metis div_mult_mod_eq)
    qed
  qed
qed

lemma format_nat_no_minus: "hd (format_nat n) \<noteq> CHR ''-''"
proof -
  have "hd (format_nat n) \<in> set (format_nat n)"
    using format_nat_nonempty by simp
  then obtain d where "d < 10" "hd (format_nat n) = digit_char d"
    using format_nat_digits by blast
  then show ?thesis by (simp add: digit_char_not_minus)
qed

lemma FormatInt_inj: "FormatInt i = FormatInt j \<Longrightarrow> i = j"
proof -
  assume e: "FormatInt i = FormatInt j"
  show "i = j"
  proof (cases "i < 0")
    case i: True
    show ?thesis
    proof (cases "j < 0")
      case True
      with i e have "format_nat (nat (- i)) = format_nat (nat (- j))" by (simp add: FormatInt_def)
      then have "nat (- i) = nat (- j)" by (rule format_nat_inj)
      with i True show ?thesis by simp
    next
      case False
      with i e have "CHR ''-'' # format_nat (nat (- i)) = format_nat (nat j)"
        by (simp add: FormatInt_def)
      then have "hd (format_nat (nat j)) = CHR ''-''" by (metis list.sel(1))
      with format_nat_no_minus show ?thesis by blast
    qed
  next
    case i: False
    show ?thesis
    proof (cases "j < 0")
      case True
      with i e have "format_nat (nat i) = CHR ''-'' # format_nat (nat (- j))"
        by (simp add: FormatInt_def)
      then have "hd (format_nat (nat i)) = CHR ''-''" by (metis list.sel(1))
      with format_nat_no_minus show ?thesis by blast
    next
      case False
      with i e have "format_nat (nat i) = format_nat (nat j)" by (simp add: FormatInt_def)
      then have "nat i = nat j" by (rule format_nat_inj)
      with i False show ?thesis by simp
    qed
  qed
qed

lemma occursAtToKey_eq:
  "occursAtToKey a = occursAtToKey b \<longleftrightarrow> UnixNano (occursAt a) = UnixNano (occursAt b)"
  by (auto simp: occursAtToKey_def dest: FormatInt_inj)

subsection \<open>Enqueueing\<close>

lemmas mpq_eval =
  arrival_def NewMovement_def NewMovementPriorityQueue_def EnqueueMovement_def heap_GetByKey_def
  heap_Add_def heap_Close_def mpq_Close_def mpq_IsClosed_def pending_def pendingKeys_def
  occursAtToKey_def FormatInt_def format_nat.simps digit_char_def UnixNano_def wrap64_def
  leftMovementIsEarlier_def time_Before_def Let_def

lemma set_heap_insert: "set (heap_insert x xs) = insert x (set xs)"
  by (induction xs) auto

lemma length_heap_insert: "length (heap_insert x xs) = Suc (length xs)"
  by (induction xs) auto

lemma distinct_keys_heap_insert:
  "distinct (map fst xs) \<Longrightarrow> fst x \<notin> set (map fst xs) \<Longrightarrow> distinct (map fst (heap_insert x xs))"
  by (induction xs) (auto simp: set_heap_insert)

lemma sorted_heap_insert:
  "sorted_wrt (\<lambda>l r. \<not> leftMovementIsEarlier r l) (map snd xs)
   \<Longrightarrow> sorted_wrt (\<lambda>l r. \<not> leftMovementIsEarlier r l) (map snd (heap_insert x xs))"
  by (induction xs) (auto simp: set_heap_insert leftMovementIsEarlier_def time_Before_def)

lemma map_of_None_keys: "map_of xs k = None \<longleftrightarrow> k \<notin> set (map fst xs)"
  by (simp add: map_of_eq_None_iff)

lemma key_pending_iff:
  assumes "mpq_inv mpq"
  shows "occursAtToKey m \<in> set (pendingKeys mpq)
         \<longleftrightarrow> UnixNano (occursAt m) \<in> set (map (\<lambda>p. UnixNano (occursAt p)) (pending mpq))"
proof -
  from assms have keys: "\<forall>kv \<in> set (heapItems (heap mpq)). fst kv = occursAtToKey (snd kv)"
    by (simp add: mpq_inv_def list_all_iff)
  show ?thesis
  proof
    assume "occursAtToKey m \<in> set (pendingKeys mpq)"
    then obtain kv where kv: "kv \<in> set (heapItems (heap mpq))" "fst kv = occursAtToKey m"
      by (auto simp: pendingKeys_def)
    with keys have "occursAtToKey (snd kv) = occursAtToKey m" by auto
    then have "UnixNano (occursAt (snd kv)) = UnixNano (occursAt m)"
      by (simp add: occursAtToKey_eq)
    with kv(1) show "UnixNano (occursAt m) \<in> set (map (\<lambda>p. UnixNano (occursAt p)) (pending mpq))"
      by (force simp: pending_def)
  next
    assume "UnixNano (occursAt m) \<in> set (map (\<lambda>p. UnixNano (occursAt p)) (pending mpq))"
    then obtain kv where kv: "kv \<in> set (heapItems (heap mpq))"
      "UnixNano (occursAt (snd kv)) = UnixNano (occursAt m)"
      by (auto simp: pending_def)
    then have "occursAtToKey (snd kv) = occursAtToKey m" by (simp add: occursAtToKey_eq)
    with keys kv(1) have "fst kv = occursAtToKey m" by auto
    with kv(1) show "occursAtToKey m \<in> set (pendingKeys mpq)"
      by (force simp: pendingKeys_def)
  qed
qed

lemma inv_distinct_nanos:
  assumes "mpq_inv mpq"
  shows "distinct (map (\<lambda>p. UnixNano (occursAt p)) (pending mpq))"
proof -
  from assms have keys: "\<forall>kv \<in> set (heapItems (heap mpq)). fst kv = occursAtToKey (snd kv)"
    and d: "distinct (map fst (heapItems (heap mpq)))"
    by (simp_all add: mpq_inv_def list_all_iff pendingKeys_def)
  from keys have "map fst (heapItems (heap mpq)) = map (\<lambda>kv. occursAtToKey (snd kv)) (heapItems (heap mpq))"
    by simp
  with d have "distinct (map (\<lambda>kv. occursAtToKey (snd kv)) (heapItems (heap mpq)))" by simp
  then have "distinct (map (\<lambda>kv. FormatInt (UnixNano (occursAt (snd kv)))) (heapItems (heap mpq)))"
    by (simp add: occursAtToKey_def)
  then have "distinct (map FormatInt (map (\<lambda>kv. UnixNano (occursAt (snd kv))) (heapItems (heap mpq))))"
    by (simp add: comp_def)
  then have "distinct (map (\<lambda>kv. UnixNano (occursAt (snd kv))) (heapItems (heap mpq)))"
    by (simp only: distinct_map)
  then show ?thesis by (simp add: pending_def comp_def)
qed

lemma enqueue_duplicate:
  assumes "occursAtToKey m \<in> set (pendingKeys mpq)"
  shows "EnqueueMovement m mpq = (Some DuplicateTimestamp, mpq)"
proof -
  from assms have "map_of (heapItems (heap mpq)) (occursAtToKey m) \<noteq> None"
    by (simp add: map_of_None_keys pendingKeys_def)
  then show ?thesis
    by (auto simp: EnqueueMovement_def heap_GetByKey_def Let_def split: option.splits)
qed

lemma enqueue_closed:
  assumes "occursAtToKey m \<notin> set (pendingKeys mpq)" and "mpq_IsClosed mpq"
  shows "EnqueueMovement m mpq = (Some HeapIsClosed, mpq)"
proof -
  from assms(1) have "map_of (heapItems (heap mpq)) (occursAtToKey m) = None"
    by (simp add: map_of_None_keys pendingKeys_def)
  with assms(2) show ?thesis
    by (simp add: EnqueueMovement_def heap_GetByKey_def heap_Add_def mpq_IsClosed_def Let_def)
qed

lemma enqueue_fresh:
  assumes "occursAtToKey m \<notin> set (pendingKeys mpq)" and "\<not> mpq_IsClosed mpq"
  shows "EnqueueMovement m mpq =
           (None, mpq\<lparr> heap := (heap mpq)\<lparr> heapItems :=
                     heap_insert (occursAtToKey m, m) (heapItems (heap mpq)) \<rparr> \<rparr>)"
proof -
  from assms(1) have "map_of (heapItems (heap mpq)) (occursAtToKey m) = None"
    by (simp add: map_of_None_keys pendingKeys_def)
  with assms(2) show ?thesis
    by (simp add: EnqueueMovement_def heap_GetByKey_def heap_Add_def mpq_IsClosed_def Let_def)
qed

lemma enqueue_fresh_inv:
  assumes inv: "mpq_inv mpq" and fresh: "occursAtToKey m \<notin> set (pendingKeys mpq)"
  shows "mpq_inv (mpq\<lparr> heap := (heap mpq)\<lparr> heapItems :=
                     heap_insert (occursAtToKey m, m) (heapItems (heap mpq)) \<rparr> \<rparr>)"
proof -
  from inv have keys: "list_all (\<lambda>kv. fst kv = occursAtToKey (snd kv)) (heapItems (heap mpq))"
    and d: "distinct (map fst (heapItems (heap mpq)))"
    and srt: "sorted_wrt (\<lambda>l r. \<not> leftMovementIsEarlier r l) (map snd (heapItems (heap mpq)))"
    by (simp_all add: mpq_inv_def pendingKeys_def pending_def)
  have "list_all (\<lambda>kv. fst kv = occursAtToKey (snd kv))
          (heap_insert (occursAtToKey m, m) (heapItems (heap mpq)))"
    using keys by (simp add: list_all_iff set_heap_insert)
  moreover have "distinct (map fst (heap_insert (occursAtToKey m, m) (heapItems (heap mpq))))"
    using d fresh by (intro distinct_keys_heap_insert) (simp_all add: pendingKeys_def)
  moreover have "sorted_wrt (\<lambda>l r. \<not> leftMovementIsEarlier r l)
          (map snd (heap_insert (occursAtToKey m, m) (heapItems (heap mpq))))"
    using srt by (rule sorted_heap_insert)
  ultimately show ?thesis by (simp add: mpq_inv_def pendingKeys_def pending_def)
qed

text \<open>
  Claim C5, as the code has it. On a queue in a state between calls,
  \<open>EnqueueMovement\<close> returns an error and leaves the queue as it is when a pending
  movement has the same \<open>OccursAt\<close> nanosecond; otherwise, when the queue has been
  closed, the heap refuses the movement and the queue is left as it is; otherwise
  the movement joins the pending ones. In each case the queue stays ordered by
  \<open>OccursAt\<close> and no two pending movements share a nanosecond.
\<close>

theorem enqueue_movement:
  assumes inv: "mpq_inv mpq"
  shows "(if UnixNano (occursAt m) \<in> set (map (\<lambda>p. UnixNano (occursAt p)) (pending mpq))
          then EnqueueMovement m mpq = (Some DuplicateTimestamp, mpq)
          else if mpq_IsClosed mpq
          then EnqueueMovement m mpq = (Some HeapIsClosed, mpq)
          else (\<exists>mpq'. EnqueueMovement m mpq = (None, mpq')
                  \<and> set (pending mpq') = insert m (set (pending mpq))
                  \<and> length (pending mpq') = Suc (length (pending mpq))))
         \<and> mpq_inv (snd (EnqueueMovement m mpq))
         \<and> distinct (map (\<lambda>p. UnixNano (occursAt p)) (pending (snd (EnqueueMovement m mpq))))"
proof -
  have iff: "UnixNano (occursAt m) \<in> set (map (\<lambda>p. UnixNano (occursAt p)) (pending mpq))
             \<longleftrightarrow> occursAtToKey m \<in> set (pendingKeys mpq)"
    using key_pending_iff[OF inv] by simp
  have after: "mpq_inv (snd (EnqueueMovement m mpq))"
  proof (cases "occursAtToKey m \<in> set (pendingKeys mpq)")
    case True
    with inv show ?thesis by (simp add: enqueue_duplicate)
  next
    case fresh: False
    show ?thesis
    proof (cases "mpq_IsClosed mpq")
      case True
      with fresh inv show ?thesis by (simp add: enqueue_closed)
    next
      case False
      with fresh inv show ?thesis by (simp add: enqueue_fresh enqueue_fresh_inv)
    qed
  qed
  have branch: "if occursAtToKey m \<in> set (pendingKeys mpq)
          then EnqueueMovement m mpq = (Some DuplicateTimestamp, mpq)
          else if mpq_IsClosed mpq
          then EnqueueMovement m mpq = (Some HeapIsClosed, mpq)
          else (\<exists>mpq'. EnqueueMovement m mpq = (None, mpq')
                  \<and> set (pending mpq') = insert m (set (pending mpq))
                  \<and> length (pending mpq') = Suc (length (pending mpq)))"
    by (auto simp: enqueue_duplicate enqueue_closed enqueue_fresh pending_def
          set_heap_insert length_heap_insert)
  from branch iff after inv_distinct_nanos[OF after] show ?thesis by simp
qed


theorem enqueue_movement_witness:
  "mpq_inv NewMovementPriorityQueue
   \<and> EnqueueMovement (arrival 5) NewMovementPriorityQueue
       = (None, snd (EnqueueMovement (arrival 5) NewMovementPriorityQueue))
   \<and> pending (snd (EnqueueMovement (arrival 5) NewMovementPriorityQueue)) = [arrival 5]
   \<and> mpq_inv (snd (EnqueueMovement (arrival 5) NewMovementPriorityQueue))
   \<and> EnqueueMovement (arrival 5) (snd (EnqueueMovement (arrival 5) NewMovementPriorityQueue))
       = (Some DuplicateTimestamp, snd (EnqueueMovement (arrival 5) NewMovementPriorityQueue))
   \<and> pending (snd (EnqueueMovement (arrival 3) (snd (EnqueueMovement (arrival 5) NewMovementPriorityQueue))))
       = [arrival 3, arrival 5]
   \<and> mpq_inv (snd (EnqueueMovement (arrival 3) (snd (EnqueueMovement (arrival 5) NewMovementPriorityQueue))))"
proof -
  have inv0: "mpq_inv NewMovementPriorityQueue"
    by (simp add: mpq_inv_def NewMovementPriorityQueue_def pending_def pendingKeys_def)
  have p0: "pending NewMovementPriorityQueue = []" "\<not> mpq_IsClosed NewMovementPriorityQueue"
    by (simp_all add: NewMovementPriorityQueue_def pending_def mpq_IsClosed_def)
  have e1: "EnqueueMovement (arrival 5) NewMovementPriorityQueue
       = (None, snd (EnqueueMovement (arrival 5) NewMovementPriorityQueue))"
    and p1: "pending (snd (EnqueueMovement (arrival 5) NewMovementPriorityQueue)) = [arrival 5]"
    by (simp_all add: mpq_eval)
  from enqueue_movement[OF inv0, of "arrival 5"]
  have inv1: "mpq_inv (snd (EnqueueMovement (arrival 5) NewMovementPriorityQueue))" by simp
  from enqueue_movement[OF inv1, of "arrival 5"] p1
  have dup: "EnqueueMovement (arrival 5) (snd (EnqueueMovement (arrival 5) NewMovementPriorityQueue))
       = (Some DuplicateTimestamp, snd (EnqueueMovement (arrival 5) NewMovementPriorityQueue))"
    by simp
  from enqueue_movement[OF inv1, of "arrival 3"]
  have inv2: "mpq_inv (snd (EnqueueMovement (arrival 3) (snd (EnqueueMovement (arrival 5) NewMovementPriorityQueue))))"
    by simp
  have p2: "pending (snd (EnqueueMovement (arrival 3) (snd (EnqueueMovement (arrival 5) NewMovementPriorityQueue))))
       = [arrival 3, arrival 5]"
    by (simp add: mpq_eval)
  from inv0 e1 p1 inv1 dup p2 inv2 show ?thesis by simp
qed


text \<open>
  Claim C5 as stated fails on a closed queue: nothing is pending, so no pending
  movement has the same nanosecond, yet \<open>EnqueueMovement\<close> returns an error and
  inserts nothing.
\<close>

theorem enqueue_on_closed_queue_fails:
  "pending (mpq_Close NewMovementPriorityQueue) = []
   \<and> EnqueueMovement (arrival 5) (mpq_Close NewMovementPriorityQueue)
       = (Some HeapIsClosed, mpq_Close NewMovementPriorityQueue)"
  by (simp add: mpq_eval)

section \<open>Properties of the autoscaler tick\<close>

lemma wrap32_id: "- (2 ^ 31) \<le> x \<Longrightarrow> x < 2 ^ 31 \<Longrightarrow> wrap32 x = x"
  unfolding wrap32_def by (simp add: mod_pos_pos_trivial)

lemma tick_delta_exact:
  assumes "int (ts_Count (Desired (cluster asts))) < 2 ^ 31"
    and "- (2 ^ 31) \<le> d - int (ts_Count (Desired (cluster asts)))"
    and "d - int (ts_Count (Desired (cluster asts))) < 2 ^ 31"
  shows "tick_delta d asts = d - int (ts_Count (Desired (cluster asts)))"
proof -
  have "wrap32 (int (ts_Count (Desired (cluster asts)))) = int (ts_Count (Desired (cluster asts)))"
    using assms(1) by (intro wrap32_id) simp_all
  then show ?thesis using assms(2,3) by (simp add: tick_delta_def wrap32_id)
qed

lemma increase_loop_result:
  "stocksKind (desiredSource asts) = ''Desired'' \<Longrightarrow>
   increase_loop i delta t asts =
     Inr (asts\<lparr> desiredSource := (desiredSource asts)\<lparr> stock := stock (desiredSource asts)
                    @ replicate (nat (delta - i)) (NewEntity ''Desired'' ''Desired'') \<rparr>,
               asts_env := (asts_env asts)\<lparr> Movements := Movements (asts_env asts)
                    @ replicate (nat (delta - i))
                        (NewMovement ''increase_desired'' (time_Add t (1 * Nanosecond))
                           DesiredSource DesiredStock) \<rparr> \<rparr>)"
proof (induction i delta t asts rule: increase_loop.induct)
  case (1 i delta t asts)
  show ?case
  proof (cases "i < delta")
    case False
    then show ?thesis by (subst increase_loop.simps) simp
  next
    case True
    let ?e = "NewEntity ''Desired'' ''Desired''"
    let ?src = "(desiredSource asts)\<lparr> stock := stock (desiredSource asts) @ [?e] \<rparr>"
    have add: "ts_Add ?e (desiredSource asts) = Inr ?src"
      using "1.prems" by (simp add: ts_Add_def)
    have n: "nat (delta - i) = Suc (nat (delta - (i + 1)))" using True by simp
    have "increase_loop i delta t asts =
            increase_loop (i + 1) delta t
              (asts\<lparr> desiredSource := ?src,
                     asts_env := AddToSchedule
                       (NewMovement ''increase_desired'' (time_Add t (1 * Nanosecond))
                          DesiredSource DesiredStock) (asts_env asts) \<rparr>)"
      using True add by (subst increase_loop.simps) simp
    also have "\<dots> = Inr (asts\<lparr> desiredSource := (desiredSource asts)\<lparr> stock := stock (desiredSource asts)
                    @ replicate (nat (delta - i)) ?e \<rparr>,
               asts_env := (asts_env asts)\<lparr> Movements := Movements (asts_env asts)
                    @ replicate (nat (delta - i))
                        (NewMovement ''increase_desired'' (time_Add t (1 * Nanosecond))
                           DesiredSource DesiredStock) \<rparr> \<rparr>)"
      using "1.IH"[OF True add] "1.prems"
      by (simp add: n AddToSchedule_def replicate_append_same)
    finally show ?thesis .
  qed
qed

lemma reduce_loop_result:
  "reduce_loop i t asts =
     asts\<lparr> asts_env := (asts_env asts)\<lparr> Movements := Movements (asts_env asts)
              @ replicate (nat (- i))
                  (NewMovement ''reduce_desired'' (time_Add t (1 * Nanosecond))
                     DesiredStock DesiredSink) \<rparr> \<rparr>"
proof (induction i t asts rule: reduce_loop.induct)
  case (1 i t asts)
  show ?case
  proof (cases "i < 0")
    case False
    then show ?thesis by (subst reduce_loop.simps) simp
  next
    case True
    have n: "nat (- i) = Suc (nat (- (i + 1)))" using True by simp
    have "reduce_loop i t asts =
            reduce_loop (i + 1) t
              (asts\<lparr> asts_env := AddToSchedule
                       (NewMovement ''reduce_desired'' (time_Add t (1 * Nanosecond))
                          DesiredStock DesiredSink) (asts_env asts) \<rparr>)"
      using True by (subst reduce_loop.simps) simp
    also have "\<dots> = asts\<lparr> asts_env := (asts_env asts)\<lparr> Movements := Movements (asts_env asts)
              @ replicate (nat (- i))
                  (NewMovement ''reduce_desired'' (time_Add t (1 * Nanosecond))
                     DesiredStock DesiredSink) \<rparr> \<rparr>"
      using "1.IH"[OF True]
      by (simp add: n AddToSchedule_def replicate_append_same)
    finally show ?thesis .
  qed
qed

lemma utilization_loop_result:
  "utilization_loop (map ReplicaEntityPtr rs) (c, t) =
     Inr (c + real (length rs),
          t + (\<Sum>r\<leftarrow>rs. occupiedCPUCapacityMillisPerSecond r * 100 / totalCPUCapacityMillisPerSecond r))"
  by (induction rs arbitrary: c t) (simp_all add: algebra_simps)

lemma calculateCPUUtilization_result:
  assumes "ActiveStockEntities (cluster asts) = map ReplicaEntityPtr rs"
  shows "calculateCPUUtilization asts =
     Inr (if rs = [] then asts
          else asts\<lparr> asts_env := (asts_env asts)\<lparr> TheCPUUtilizations := TheCPUUtilizations (asts_env asts) @
                 [\<lparr> cpuUtilization =
                      (\<Sum>r\<leftarrow>rs. occupiedCPUCapacityMillisPerSecond r * 100 / totalCPUCapacityMillisPerSecond r)
                        / real (length rs),
                    calculatedAt = CurrentMovementTime (asts_env asts) \<rparr>] \<rparr> \<rparr>)"
proof -
  have ul: "utilization_loop (ActiveStockEntities (cluster asts)) (0, 0) =
      Inr (real (length rs),
           (\<Sum>r\<leftarrow>rs. occupiedCPUCapacityMillisPerSecond r * 100 / totalCPUCapacityMillisPerSecond r))"
    using utilization_loop_result[of rs 0 0] assms by simp
  show ?thesis
  proof (cases "rs = []")
    case True
    with ul show ?thesis by (simp add: calculateCPUUtilization_def)
  next
    case False
    then have "0 < real (length rs)" by simp
    with ul False show ?thesis
      by (simp add: calculateCPUUtilization_def AppendCPUUtilization_def)
  qed
qed


lemma tick_delta_recorded:
  "tick_delta d (asts\<lparr> cluster := RecordToAutoscaler t (cluster asts) \<rparr>) = tick_delta d asts"
  by (simp add: tick_delta_def RecordToAutoscaler_def)

lemma RecordToAutoscaler_active:
  "ActiveStockEntities (RecordToAutoscaler t c) = ActiveStockEntities c"
  by (simp add: RecordToAutoscaler_def)

lemma asts_Add_result:
  assumes ent: "autoscalerEntity asts = entity"
    and scale: "ThePlugin (asts_env asts) (UnixNano (CurrentMovementTime (asts_env asts))) = Inr d"
    and kind: "stocksKind (desiredSource asts) = ''Desired''"
    and act: "ActiveStockEntities (cluster asts) = map ReplicaEntityPtr rs"
  shows "\<exists>asts'. asts_Add entity asts = Inr asts'
     \<and> Movements (asts_env asts') = Movements (asts_env asts) @
          (if 0 < tick_delta d asts
           then replicate (nat (tick_delta d asts))
                  (NewMovement ''increase_desired'' (time_Add (CurrentMovementTime (asts_env asts)) Nanosecond)
                     DesiredSource DesiredStock)
           else replicate (nat (- tick_delta d asts))
                  (NewMovement ''reduce_desired'' (time_Add (CurrentMovementTime (asts_env asts)) Nanosecond)
                     DesiredStock DesiredSink))
     \<and> stock (desiredSource asts') = stock (desiredSource asts) @
          replicate (nat (tick_delta d asts)) (NewEntity ''Desired'' ''Desired'')
     \<and> TheCPUUtilizations (asts_env asts') = TheCPUUtilizations (asts_env asts) @
          (if rs = [] then []
           else [\<lparr> cpuUtilization =
                     (\<Sum>r\<leftarrow>rs. occupiedCPUCapacityMillisPerSecond r * 100 / totalCPUCapacityMillisPerSecond r)
                       / real (length rs),
                   calculatedAt = CurrentMovementTime (asts_env asts) \<rparr>])"
proof -
  let ?now = "CurrentMovementTime (asts_env asts)"
  let ?a1 = "asts\<lparr> cluster := RecordToAutoscaler ?now (cluster asts) \<rparr>"
  have k1: "stocksKind (desiredSource ?a1) = ''Desired''" using kind by simp
  have a1: "ActiveStockEntities (cluster ?a1) = map ReplicaEntityPtr rs"
    using act by (simp add: RecordToAutoscaler_active)
  consider (up) "0 < tick_delta d asts" | (down) "tick_delta d asts < 0" | (same) "tick_delta d asts = 0"
    by linarith
  then show ?thesis
  proof cases
    case up
    let ?a2 = "?a1\<lparr> desiredSource := (desiredSource ?a1)\<lparr> stock := stock (desiredSource ?a1)
                    @ replicate (nat (tick_delta d asts - 0)) (NewEntity ''Desired'' ''Desired'') \<rparr>,
               asts_env := (asts_env ?a1)\<lparr> Movements := Movements (asts_env ?a1)
                    @ replicate (nat (tick_delta d asts - 0))
                        (NewMovement ''increase_desired'' (time_Add ?now (1 * Nanosecond))
                           DesiredSource DesiredStock) \<rparr> \<rparr>"
    have loop: "increase_loop 0 (tick_delta d asts) ?now ?a1 = Inr ?a2"
      by (rule increase_loop_result[OF k1])
    have "asts_Add entity asts = calculateCPUUtilization ?a2"
      using ent scale up by (simp add: asts_Add_def Let_def tick_delta_recorded loop)
    also have "\<dots> = Inr (if rs = [] then ?a2
          else ?a2\<lparr> asts_env := (asts_env ?a2)\<lparr> TheCPUUtilizations := TheCPUUtilizations (asts_env ?a2) @
                 [\<lparr> cpuUtilization =
                      (\<Sum>r\<leftarrow>rs. occupiedCPUCapacityMillisPerSecond r * 100 / totalCPUCapacityMillisPerSecond r)
                        / real (length rs),
                    calculatedAt = CurrentMovementTime (asts_env ?a2) \<rparr>] \<rparr> \<rparr>)"
      by (rule calculateCPUUtilization_result) (simp add: act RecordToAutoscaler_active)
    finally show ?thesis using up by (simp add: CurrentMovementTime_def)
  next
    case down
    let ?a2 = "?a1\<lparr> asts_env := (asts_env ?a1)\<lparr> Movements := Movements (asts_env ?a1)
              @ replicate (nat (- tick_delta d asts))
                  (NewMovement ''reduce_desired'' (time_Add ?now (1 * Nanosecond))
                     DesiredStock DesiredSink) \<rparr> \<rparr>"
    have loop: "reduce_loop (tick_delta d asts) ?now ?a1 = ?a2"
      by (rule reduce_loop_result)
    have "asts_Add entity asts = calculateCPUUtilization ?a2"
      using ent scale down by (simp add: asts_Add_def Let_def tick_delta_recorded loop)
    also have "\<dots> = Inr (if rs = [] then ?a2
          else ?a2\<lparr> asts_env := (asts_env ?a2)\<lparr> TheCPUUtilizations := TheCPUUtilizations (asts_env ?a2) @
                 [\<lparr> cpuUtilization =
                      (\<Sum>r\<leftarrow>rs. occupiedCPUCapacityMillisPerSecond r * 100 / totalCPUCapacityMillisPerSecond r)
                        / real (length rs),
                    calculatedAt = CurrentMovementTime (asts_env ?a2) \<rparr>] \<rparr> \<rparr>)"
      by (rule calculateCPUUtilization_result) (simp add: act RecordToAutoscaler_active)
    finally show ?thesis using down by (simp add: CurrentMovementTime_def)
  next
    case same
    have "asts_Add entity asts = calculateCPUUtilization ?a1"
      using ent scale same by (simp add: asts_Add_def Let_def tick_delta_recorded)
    also have "\<dots> = Inr (if rs = [] then ?a1
          else ?a1\<lparr> asts_env := (asts_env ?a1)\<lparr> TheCPUUtilizations := TheCPUUtilizations (asts_env ?a1) @
                 [\<lparr> cpuUtilization =
                      (\<Sum>r\<leftarrow>rs. occupiedCPUCapacityMillisPerSecond r * 100 / totalCPUCapacityMillisPerSecond r)
                        / real (length rs),
                    calculatedAt = CurrentMovementTime (asts_env ?a1) \<rparr>] \<rparr> \<rparr>)"
      by (rule calculateCPUUtilization_result) (simp add: act RecordToAutoscaler_active)
    finally show ?thesis using same by (simp add: CurrentMovementTime_def)
  qed
qed


lemmas tick_eval =
  tick_scenario_def scaler_def env0_def NewAutoscalerTicktockStock_def NewThroughStock_def
  asts_Add_def tick_delta_def wrap32_def wrap64_def UnixNano_def RecordToAutoscaler_def
  calculateCPUUtilization_def AppendCPUUtilization_def CurrentMovementTime_def
  AddToSchedule_def NewMovement_def time_Add_def Nanosecond_def ts_Count_def ts_Add_def Let_def

subsection \<open>Scaling movements\<close>

text \<open>
  Claim C6. A tick whose entity is the autoscaler's and whose policy answers
  \<open>d\<close> succeeds, and with \<open>delta\<close> the difference computed by the code: if
  \<open>delta > 0\<close>, \<open>delta\<close> new Desired entities are added to the desired source and
  \<open>delta\<close> \<open>increase_desired\<close> movements from there to the Desired stock are
  scheduled at now + 1ns; if \<open>delta < 0\<close>, \<open>|delta|\<close> \<open>reduce_desired\<close> movements
  from the Desired stock to the sink are scheduled at now + 1ns; if \<open>delta = 0\<close>
  nothing is scheduled. \<open>delta\<close> is the answer minus the count of the Desired
  stock whenever that difference and the count fit \<open>int32\<close>.
\<close>

theorem tick_schedules_delta_movements:
  assumes "autoscalerEntity asts = entity"
    and "ThePlugin (asts_env asts) (UnixNano (CurrentMovementTime (asts_env asts))) = Inr d"
    and "stocksKind (desiredSource asts) = ''Desired''"
    and "ActiveStockEntities (cluster asts) = map ReplicaEntityPtr rs"
  shows "(\<exists>asts'. asts_Add entity asts = Inr asts' \<and>
      (if 0 < tick_delta d asts then
         stock (desiredSource asts') = stock (desiredSource asts) @
           replicate (nat (tick_delta d asts)) (NewEntity ''Desired'' ''Desired'')
         \<and> Movements (asts_env asts') = Movements (asts_env asts) @
           replicate (nat (tick_delta d asts))
             (NewMovement ''increase_desired'' (time_Add (CurrentMovementTime (asts_env asts)) Nanosecond)
                DesiredSource DesiredStock)
       else if tick_delta d asts < 0 then
         stock (desiredSource asts') = stock (desiredSource asts)
         \<and> Movements (asts_env asts') = Movements (asts_env asts) @
           replicate (nat (- tick_delta d asts))
             (NewMovement ''reduce_desired'' (time_Add (CurrentMovementTime (asts_env asts)) Nanosecond)
                DesiredStock DesiredSink)
       else
         stock (desiredSource asts') = stock (desiredSource asts)
         \<and> Movements (asts_env asts') = Movements (asts_env asts)))
    \<and> (int (ts_Count (Desired (cluster asts))) < 2 ^ 31
         \<and> - (2 ^ 31) \<le> d - int (ts_Count (Desired (cluster asts)))
         \<and> d - int (ts_Count (Desired (cluster asts))) < 2 ^ 31
       \<longrightarrow> tick_delta d asts = d - int (ts_Count (Desired (cluster asts))))"
proof -
  from asts_Add_result[OF assms] obtain asts' where
    r: "asts_Add entity asts = Inr asts'"
    and m: "Movements (asts_env asts') = Movements (asts_env asts) @
          (if 0 < tick_delta d asts
           then replicate (nat (tick_delta d asts))
                  (NewMovement ''increase_desired'' (time_Add (CurrentMovementTime (asts_env asts)) Nanosecond)
                     DesiredSource DesiredStock)
           else replicate (nat (- tick_delta d asts))
                  (NewMovement ''reduce_desired'' (time_Add (CurrentMovementTime (asts_env asts)) Nanosecond)
                     DesiredStock DesiredSink))"
    and s: "stock (desiredSource asts') = stock (desiredSource asts) @
          replicate (nat (tick_delta d asts)) (NewEntity ''Desired'' ''Desired'')"
    by blast
  have "if 0 < tick_delta d asts then
         stock (desiredSource asts') = stock (desiredSource asts) @
           replicate (nat (tick_delta d asts)) (NewEntity ''Desired'' ''Desired'')
         \<and> Movements (asts_env asts') = Movements (asts_env asts) @
           replicate (nat (tick_delta d asts))
             (NewMovement ''increase_desired'' (time_Add (CurrentMovementTime (asts_env asts)) Nanosecond)
                DesiredSource DesiredStock)
       else if tick_delta d asts < 0 then
         stock (desiredSource asts') = stock (desiredSource asts)
         \<and> Movements (asts_env asts') = Movements (asts_env asts) @
           replicate (nat (- tick_delta d asts))
             (NewMovement ''reduce_desired'' (time_Add (CurrentMovementTime (asts_env asts)) Nanosecond)
                DesiredStock DesiredSink)
       else
         stock (desiredSource asts') = stock (desiredSource asts)
         \<and> Movements (asts_env asts') = Movements (asts_env asts)"
    using m s by auto
  with r tick_delta_exact[of asts d] show ?thesis by blast
qed

theorem tick_schedules_delta_movements_witness:
  "tick_delta 3 (tick_scenario 3 0 []) = 3
   \<and> (\<exists>asts'. asts_Add scaler (tick_scenario 3 0 []) = Inr asts'
        \<and> stock (desiredSource asts') = replicate 3 (NewEntity ''Desired'' ''Desired'')
        \<and> Movements (asts_env asts') =
            replicate 3 (NewMovement ''increase_desired'' 2000000002 DesiredSource DesiredStock))
   \<and> tick_delta 1 (tick_scenario 1 3 []) = - 2
   \<and> (\<exists>asts'. asts_Add scaler (tick_scenario 1 3 []) = Inr asts'
        \<and> stock (desiredSource asts') = []
        \<and> Movements (asts_env asts') =
            replicate 2 (NewMovement ''reduce_desired'' 2000000002 DesiredStock DesiredSink))
   \<and> tick_delta 2 (tick_scenario 2 2 []) = 0
   \<and> (\<exists>asts'. asts_Add scaler (tick_scenario 2 2 []) = Inr asts'
        \<and> Movements (asts_env asts') = [])"
proof -
  have h: "autoscalerEntity (tick_scenario k n []) = scaler"
    "ThePlugin (asts_env (tick_scenario k n []))
       (UnixNano (CurrentMovementTime (asts_env (tick_scenario k n [])))) = Inr k"
    "stocksKind (desiredSource (tick_scenario k n [])) = ''Desired''"
    "ActiveStockEntities (cluster (tick_scenario k n [])) = map ReplicaEntityPtr []"
    for k n
    by (simp_all add: tick_scenario_def NewAutoscalerTicktockStock_def NewThroughStock_def)
  have v: "stock (desiredSource (tick_scenario k n [])) = []"
    "Movements (asts_env (tick_scenario k n [])) = []"
    "time_Add (CurrentMovementTime (asts_env (tick_scenario k n []))) Nanosecond = 2000000002"
    for k n
    by (simp_all add: tick_eval)
  have d: "tick_delta 3 (tick_scenario 3 0 []) = 3" "tick_delta 1 (tick_scenario 1 3 []) = - 2"
    "tick_delta 2 (tick_scenario 2 2 []) = 0"
    by (simp_all add: tick_eval)
  from tick_schedules_delta_movements[OF h, of 3 0] d v
  have a: "\<exists>asts'. asts_Add scaler (tick_scenario 3 0 []) = Inr asts'
        \<and> stock (desiredSource asts') = replicate 3 (NewEntity ''Desired'' ''Desired'')
        \<and> Movements (asts_env asts') =
            replicate 3 (NewMovement ''increase_desired'' 2000000002 DesiredSource DesiredStock)"
    by simp
  from tick_schedules_delta_movements[OF h, of 1 3] d v
  have b: "\<exists>asts'. asts_Add scaler (tick_scenario 1 3 []) = Inr asts'
        \<and> stock (desiredSource asts') = []
        \<and> Movements (asts_env asts') =
            replicate 2 (NewMovement ''reduce_desired'' 2000000002 DesiredStock DesiredSink)"
    by simp
  from tick_schedules_delta_movements[OF h, of 2 2] d v
  have c: "\<exists>asts'. asts_Add scaler (tick_scenario 2 2 []) = Inr asts'
        \<and> Movements (asts_env asts') = []"
    by auto
  from a b c d show ?thesis by blast
qed

subsection \<open>CPU utilization samples\<close>

lemma percent_sum:
  "(\<Sum>r\<leftarrow>rs. occupiedCPUCapacityMillisPerSecond r * 100 / totalCPUCapacityMillisPerSecond r)
   = 100 * (\<Sum>r\<leftarrow>rs. occupiedCPUCapacityMillisPerSecond r / totalCPUCapacityMillisPerSecond r)"
  by (induction rs) (simp_all add: algebra_simps)

text \<open>
  Claim C9, as the code has it. A tick that succeeds appends one sample when at least
  one replica is active, and none otherwise. The value of the sample is the mean
  over the active replicas of occupied over total CPU capacity, as a percentage
  (times 100); it is stamped with the current time.
\<close>

theorem tick_appends_cpu_utilization:
  assumes "autoscalerEntity asts = entity"
    and "ThePlugin (asts_env asts) (UnixNano (CurrentMovementTime (asts_env asts))) = Inr d"
    and "stocksKind (desiredSource asts) = ''Desired''"
    and "ActiveStockEntities (cluster asts) = map ReplicaEntityPtr rs"
    and "\<forall>r \<in> set rs. totalCPUCapacityMillisPerSecond r \<noteq> 0"
  shows "\<exists>asts'. asts_Add entity asts = Inr asts' \<and>
      TheCPUUtilizations (asts_env asts') =
        (if rs = [] then TheCPUUtilizations (asts_env asts)
         else TheCPUUtilizations (asts_env asts) @
           [\<lparr> cpuUtilization =
                100 * ((\<Sum>r\<leftarrow>rs. occupiedCPUCapacityMillisPerSecond r / totalCPUCapacityMillisPerSecond r)
                         / real (length rs)),
              calculatedAt = CurrentMovementTime (asts_env asts) \<rparr>])"
proof -
  from asts_Add_result[OF assms(1-4)] obtain asts' where
    r: "asts_Add entity asts = Inr asts'"
    and u: "TheCPUUtilizations (asts_env asts') = TheCPUUtilizations (asts_env asts) @
          (if rs = [] then []
           else [\<lparr> cpuUtilization =
                     (\<Sum>r\<leftarrow>rs. occupiedCPUCapacityMillisPerSecond r * 100 / totalCPUCapacityMillisPerSecond r)
                       / real (length rs),
                   calculatedAt = CurrentMovementTime (asts_env asts) \<rparr>])"
    by blast
  from u have "TheCPUUtilizations (asts_env asts') =
        (if rs = [] then TheCPUUtilizations (asts_env asts)
         else TheCPUUtilizations (asts_env asts) @
           [\<lparr> cpuUtilization =
                100 * ((\<Sum>r\<leftarrow>rs. occupiedCPUCapacityMillisPerSecond r / totalCPUCapacityMillisPerSecond r)
                         / real (length rs)),
              calculatedAt = CurrentMovementTime (asts_env asts) \<rparr>])"
    by (simp add: percent_sum)
  with r show ?thesis by blast
qed

theorem tick_appends_cpu_utilization_witness:
  "(\<exists>asts'. asts_Add scaler (tick_scenario 1 1 [ReplicaEntityPtr half_busy]) = Inr asts'
      \<and> TheCPUUtilizations (asts_env asts') = [\<lparr> cpuUtilization = 50, calculatedAt = 2000000001 \<rparr>])
   \<and> (\<exists>asts'. asts_Add scaler (tick_scenario 1 1 []) = Inr asts'
      \<and> TheCPUUtilizations (asts_env asts') = [])"
proof -
  have h: "autoscalerEntity (tick_scenario 1 1 (map ReplicaEntityPtr rs)) = scaler"
    "ThePlugin (asts_env (tick_scenario 1 1 (map ReplicaEntityPtr rs)))
       (UnixNano (CurrentMovementTime (asts_env (tick_scenario 1 1 (map ReplicaEntityPtr rs))))) = Inr 1"
    "stocksKind (desiredSource (tick_scenario 1 1 (map ReplicaEntityPtr rs))) = ''Desired''"
    "ActiveStockEntities (cluster (tick_scenario 1 1 (map ReplicaEntityPtr rs))) = map ReplicaEntityPtr rs"
    for rs
    by (simp_all add: tick_scenario_def NewAutoscalerTicktockStock_def NewThroughStock_def)
  have v: "TheCPUUtilizations (asts_env (tick_scenario 1 1 (map ReplicaEntityPtr rs))) = []"
    "CurrentMovementTime (asts_env (tick_scenario 1 1 (map ReplicaEntityPtr rs))) = 2000000001"
    for rs
    by (simp_all add: tick_eval)
  have t: "\<forall>r \<in> set [half_busy]. totalCPUCapacityMillisPerSecond r \<noteq> 0"
    "\<forall>r \<in> set ([] :: replicaEntity list). totalCPUCapacityMillisPerSecond r \<noteq> 0"
    by (simp_all add: half_busy_def)
  from tick_appends_cpu_utilization[OF h t(1)] v[of "[half_busy]"]
  have a: "\<exists>asts'. asts_Add scaler (tick_scenario 1 1 [ReplicaEntityPtr half_busy]) = Inr asts'
      \<and> TheCPUUtilizations (asts_env asts') = [\<lparr> cpuUtilization = 50, calculatedAt = 2000000001 \<rparr>]"
    by (simp add: half_busy_def)
  from tick_appends_cpu_utilization[OF h t(2)] v[of "[]"]
  have b: "\<exists>asts'. asts_Add scaler (tick_scenario 1 1 []) = Inr asts'
      \<and> TheCPUUtilizations (asts_env asts') = []"
    by simp
  from a b show ?thesis by blast
qed

text \<open>
  Claim C9 as stated fails: with no active replica the tick appends no sample, and
  for one replica at half of its capacity the sample is 50, not 1/2.
\<close>

theorem no_sample_without_active_replicas:
  "ActiveStockEntities (cluster (tick_scenario 1 1 [])) = []
   \<and> TheCPUUtilizations (asts_env (tick_scenario 1 1 [])) = []
   \<and> \<not> isl (asts_Add scaler (tick_scenario 1 1 []))
   \<and> TheCPUUtilizations (asts_env (projr (asts_Add scaler (tick_scenario 1 1 [])))) = []
   \<and> \<not> isl (asts_Add scaler (tick_scenario 1 1 [ReplicaEntityPtr half_busy]))
   \<and> map cpuUtilization
        (TheCPUUtilizations (asts_env (projr (asts_Add scaler (tick_scenario 1 1 [ReplicaEntityPtr half_busy])))))
       = [50]
   \<and> occupiedCPUCapacityMillisPerSecond half_busy / totalCPUCapacityMillisPerSecond half_busy = 1 / 2"
  by (simp add: tick_eval half_busy_def)

section \<open>Properties of the sliding-window CPU usage\<close>

lemma trim_loop_trimmed:
  "trim_loop now w xs acc = acc @ trimmed (time_Add now (wrap64 (- w))) xs"
  by (induction xs arbitrary: acc) (auto simp: trimmed_def time_Before_def max_def)

lemma trim_trimmed:
  "activeTimeSlices (trim now c) = trimmed (time_Add now (wrap64 (- window c))) (activeTimeSlices c)"
  by (simp add: trim_def trim_loop_trimmed)

lemma cutoff_15s: "time_Add now (wrap64 (- (15 * Second))) = now - 15 * Second"
  by (simp add: time_Add_def wrap64_def Second_def)

lemma trimmed_nonneg: "list_all (\<lambda>a. fst a \<le> snd a) xs \<Longrightarrow> list_all (\<lambda>a. fst a \<le> snd a) (trimmed c xs)"
  by (induction xs) (auto simp: trimmed_def)

lemma total_length_nonneg: "list_all (\<lambda>a. fst a \<le> snd a) xs \<Longrightarrow> 0 \<le> total_length xs"
  by (induction xs) (auto simp: total_length_def)

lemma activeNanos_loop_exact:
  "list_all (\<lambda>a. fst a \<le> snd a) xs \<Longrightarrow> 0 \<le> acc \<Longrightarrow> acc + total_length xs \<le> maxDuration
   \<Longrightarrow> activeNanos_loop xs acc = acc + total_length xs"
proof (induction xs arbitrary: acc)
  case Nil
  then show ?case by (simp add: total_length_def)
next
  case (Cons a xs)
  from Cons.prems(1) have a: "fst a \<le> snd a" and xs: "list_all (\<lambda>a. fst a \<le> snd a) xs" by simp_all
  have rest: "0 \<le> total_length xs" using xs by (rule total_length_nonneg)
  have tl: "total_length (a # xs) = (snd a - fst a) + total_length xs" by (simp add: total_length_def)
  have len: "snd a - fst a \<le> maxDuration" using Cons.prems(2,3) rest tl by simp
  have sub: "time_Sub (snd a) (fst a) = snd a - fst a"
    using a len by (simp add: time_Sub_def minDuration_def)
  have "- (2 ^ 63) \<le> acc + (snd a - fst a)" using a Cons.prems(2) by simp
  moreover have "acc + (snd a - fst a) < 2 ^ 63"
    using Cons.prems(3) rest tl by (simp add: maxDuration_def)
  ultimately have w: "wrap64 (acc + (snd a - fst a)) = acc + (snd a - fst a)" by (rule wrap64_id)
  have "activeNanos_loop (a # xs) acc = activeNanos_loop xs (acc + (snd a - fst a))"
    by (simp add: sub w)
  also have "\<dots> = acc + (snd a - fst a) + total_length xs"
    using xs a Cons.prems(2,3) tl by (intro Cons.IH) simp_all
  finally show ?case by (simp add: tl)
qed

lemma trimmed_total_bound:
  "slices_in_order xs \<Longrightarrow> list_all (\<lambda>a. lo \<le> fst a) xs \<Longrightarrow> list_all (\<lambda>a. snd a \<le> hi) xs
   \<Longrightarrow> c \<le> hi \<Longrightarrow> lo \<le> hi
   \<Longrightarrow> total_length (trimmed c xs) \<le> hi - max lo c"
proof (induction xs arbitrary: lo)
  case Nil
  then show ?case by (simp add: total_length_def trimmed_def)
next
  case (Cons a xs)
  from Cons.prems(1) have a: "fst a \<le> snd a" and after: "list_all (\<lambda>b. snd a \<le> fst b) xs"
    and ord: "slices_in_order xs"
    by (auto simp: slices_in_order_def list_all_iff)
  from Cons.prems(2) have lo: "lo \<le> fst a" by simp
  from Cons.prems(3) have hi: "snd a \<le> hi" and his: "list_all (\<lambda>a. snd a \<le> hi) xs" by simp_all
  have ih: "total_length (trimmed c xs) \<le> hi - max (snd a) c"
    using ord after his Cons.prems(4) hi by (rule Cons.IH)
  show ?case
  proof (cases "snd a < c")
    case True
    then have "trimmed c (a # xs) = trimmed c xs" by (simp add: trimmed_def)
    with ih True lo a show ?thesis by simp
  next
    case False
    then have "total_length (trimmed c (a # xs)) = (snd a - max (fst a) c) + total_length (trimmed c xs)"
      by (simp add: trimmed_def total_length_def)
    with ih False lo a show ?thesis by simp
  qed
qed

lemma trimmed_total_window:
  assumes "slices_in_order xs" and "list_all (\<lambda>a. snd a \<le> hi) xs" and "c \<le> hi"
  shows "total_length (trimmed c xs) \<le> hi - c"
proof (cases xs)
  case Nil
  with assms(3) show ?thesis by (simp add: total_length_def trimmed_def)
next
  case (Cons a ys)
  with assms(1) have a: "fst a \<le> snd a" and after: "list_all (\<lambda>b. snd a \<le> fst b) ys"
    by (auto simp: slices_in_order_def list_all_iff)
  from Cons assms(2) have hi: "snd a \<le> hi" by simp
  have "list_all (\<lambda>b. fst a \<le> fst b) xs"
    using Cons a after by (auto simp: list_all_iff)
  with assms have "total_length (trimmed c xs) \<le> hi - max (fst a) c"
    using a hi by (intro trimmed_total_bound) simp_all
  then show ?thesis by simp
qed


text \<open>
  Claim C7, as the code has it. With the window of 15s that
  \<open>NewRequestsProcessingStock\<close> sets, \<open>trim\<close> keeps exactly the intervals that do
  not end before now - 15s and moves a start that lies before now - 15s to
  now - 15s; \<open>usage\<close> leaves the record trimmed. When no recorded interval ends
  before it starts (and the sum fits \<open>int64\<close>), \<open>usage\<close> returns the sum of end
  minus start over the remaining intervals divided by 15s, which is at least 0. When
  moreover the intervals are in order and none ends after a time \<open>hi\<close>, the value is
  at most 1 + (hi - now) / 15s, so at most 1 when no interval ends after now. The
  value is returned as computed: nothing clamps it.
\<close>

theorem cpu_usage_over_window:
  assumes w: "window c = 15 * Second"
  shows "activeTimeSlices (trim now c) = trimmed (now - 15 * Second) (activeTimeSlices c)
     \<and> snd (usage now c) = trim now c
     \<and> (list_all (\<lambda>a. fst a \<le> snd a) (activeTimeSlices c)
          \<and> total_length (activeTimeSlices (trim now c)) \<le> maxDuration
        \<longrightarrow> fst (usage now c)
              = real_of_int (total_length (activeTimeSlices (trim now c))) / real_of_int (15 * Second)
            \<and> 0 \<le> fst (usage now c))
     \<and> (slices_in_order (activeTimeSlices c)
          \<and> list_all (\<lambda>a. snd a \<le> hi) (activeTimeSlices c)
          \<and> now - 15 * Second \<le> hi \<and> hi - now \<le> maxDuration - 15 * Second
        \<longrightarrow> total_length (activeTimeSlices (trim now c)) \<le> maxDuration
            \<and> fst (usage now c) \<le> 1 + real_of_int (hi - now) / real_of_int (15 * Second))"
proof -
  let ?xs = "activeTimeSlices c"
  let ?cut = "now - 15 * Second"
  have t: "activeTimeSlices (trim now c) = trimmed ?cut ?xs"
    by (simp add: trim_trimmed w cutoff_15s)
  have s: "snd (usage now c) = trim now c"
    by (simp add: usage_def Let_def)
  have wt: "window (trim now c) = 15 * Second"
    by (simp add: trim_def w)
  have u: "fst (usage now c)
             = real_of_int (activeNanos_loop (trimmed ?cut ?xs) 0) / real_of_int (15 * Second)"
    by (simp add: usage_def Let_def t wt)
  have pos: "(0::real) < real_of_int (15 * Second)" by (simp add: Second_def)
  have exact: "fst (usage now c)
        = real_of_int (total_length (trimmed ?cut ?xs)) / real_of_int (15 * Second)
      \<and> 0 \<le> fst (usage now c)"
    if wf: "list_all (\<lambda>a. fst a \<le> snd a) ?xs" and fits: "total_length (trimmed ?cut ?xs) \<le> maxDuration"
  proof -
    have nn: "list_all (\<lambda>a. fst a \<le> snd a) (trimmed ?cut ?xs)"
      using wf by (rule trimmed_nonneg)
    have lo: "0 \<le> total_length (trimmed ?cut ?xs)"
      using nn by (rule total_length_nonneg)
    have "0 + total_length (trimmed ?cut ?xs) \<le> maxDuration" using fits by simp
    with nn have "activeNanos_loop (trimmed ?cut ?xs) 0 = 0 + total_length (trimmed ?cut ?xs)"
      by (intro activeNanos_loop_exact) simp_all
    with u have eq: "fst (usage now c)
        = real_of_int (total_length (trimmed ?cut ?xs)) / real_of_int (15 * Second)"
      by simp
    with lo pos show ?thesis by simp
  qed
  have bound: "total_length (trimmed ?cut ?xs) \<le> maxDuration
      \<and> fst (usage now c) \<le> 1 + real_of_int (hi - now) / real_of_int (15 * Second)"
    if ord: "slices_in_order ?xs" and ends: "list_all (\<lambda>a. snd a \<le> hi) ?xs"
      and cut: "?cut \<le> hi" and rng: "hi - now \<le> maxDuration - 15 * Second"
  proof -
    have up: "total_length (trimmed ?cut ?xs) \<le> hi - ?cut"
      using ord ends cut by (rule trimmed_total_window)
    with rng have fits: "total_length (trimmed ?cut ?xs) \<le> maxDuration" by simp
    from ord have "list_all (\<lambda>a. fst a \<le> snd a) ?xs" by (simp add: slices_in_order_def)
    from exact[OF this fits] have eq: "fst (usage now c)
        = real_of_int (total_length (trimmed ?cut ?xs)) / real_of_int (15 * Second)" by simp
    have "real_of_int (total_length (trimmed ?cut ?xs)) \<le> real_of_int (hi - ?cut)"
      using up by (simp only: of_int_le_iff)
    then have "fst (usage now c) \<le> real_of_int (hi - ?cut) / real_of_int (15 * Second)"
      using pos by (simp add: eq divide_right_mono)
    also have "\<dots> = 1 + real_of_int (hi - now) / real_of_int (15 * Second)"
      by (simp add: Second_def field_simps)
    finally show ?thesis using fits by simp
  qed
  have e': "list_all (\<lambda>a. fst a \<le> snd a) ?xs
          \<and> total_length (activeTimeSlices (trim now c)) \<le> maxDuration
        \<longrightarrow> fst (usage now c)
              = real_of_int (total_length (activeTimeSlices (trim now c))) / real_of_int (15 * Second)
            \<and> 0 \<le> fst (usage now c)"
    unfolding t using exact by blast
  have b': "slices_in_order ?xs \<and> list_all (\<lambda>a. snd a \<le> hi) ?xs
          \<and> ?cut \<le> hi \<and> hi - now \<le> maxDuration - 15 * Second
        \<longrightarrow> total_length (activeTimeSlices (trim now c)) \<le> maxDuration
            \<and> fst (usage now c) \<le> 1 + real_of_int (hi - now) / real_of_int (15 * Second)"
    unfolding t using bound by blast
  from t s e' b' show ?thesis by blast
qed

theorem cpu_usage_over_window_witness:
  "window two_quanta = 15 * Second
   \<and> slices_in_order (activeTimeSlices two_quanta)
   \<and> list_all (\<lambda>a. snd a \<le> 15050000000) (activeTimeSlices two_quanta)
   \<and> activeTimeSlices (trim 15050000000 two_quanta) = [(50000000, 100000000), (100000000, 200000000)]
   \<and> activeTimeSlices (trim 15150000000 two_quanta) = [(150000000, 200000000)]
   \<and> fst (usage 15050000000 two_quanta) = 1 / 100
   \<and> 0 \<le> fst (usage 15050000000 two_quanta)
   \<and> fst (usage 15050000000 two_quanta) \<le> 1"
proof -
  have w: "window two_quanta = 15 * Second" by (simp add: two_quanta_def)
  have pre: "slices_in_order (activeTimeSlices two_quanta)"
    "list_all (\<lambda>a. snd a \<le> 15050000000) (activeTimeSlices two_quanta)"
    "15050000000 - 15 * Second \<le> (15050000000::int)"
    "15050000000 - 15050000000 \<le> maxDuration - 15 * Second"
    by (simp_all add: two_quanta_def slices_in_order_def Second_def maxDuration_def)
  have t1: "trimmed (15050000000 - 15 * Second) (activeTimeSlices two_quanta)
              = [(50000000, 100000000), (100000000, 200000000)]"
    and t2: "trimmed (15150000000 - 15 * Second) (activeTimeSlices two_quanta)
              = [(150000000, 200000000)]"
    by (simp_all add: trimmed_def two_quanta_def Second_def)
  have wf: "list_all (\<lambda>a. fst a \<le> snd a) (activeTimeSlices two_quanta)"
    by (simp add: two_quanta_def)
  from cpu_usage_over_window[OF w, of 15050000000 15050000000] pre
  have a0: "activeTimeSlices (trim 15050000000 two_quanta)
              = trimmed (15050000000 - 15 * Second) (activeTimeSlices two_quanta)"
    and fits: "total_length (activeTimeSlices (trim 15050000000 two_quanta)) \<le> maxDuration"
    and b2: "fst (usage 15050000000 two_quanta)
         \<le> 1 + real_of_int (15050000000 - 15050000000) / real_of_int (15 * Second)"
    by blast+
  from cpu_usage_over_window[OF w, of 15050000000 15050000000] wf fits
  have u0: "fst (usage 15050000000 two_quanta)
              = real_of_int (total_length (activeTimeSlices (trim 15050000000 two_quanta)))
                  / real_of_int (15 * Second)"
    and b1: "0 \<le> fst (usage 15050000000 two_quanta)"
    by blast+
  from b1 b2 have b: "0 \<le> fst (usage 15050000000 two_quanta)" "fst (usage 15050000000 two_quanta) \<le> 1"
    by simp_all
  from a0 t1
  have a: "activeTimeSlices (trim 15050000000 two_quanta) = [(50000000, 100000000), (100000000, 200000000)]"
    by simp
  from u0 a have u: "fst (usage 15050000000 two_quanta) = 1 / 100"
    by (simp add: total_length_def Second_def)
  from cpu_usage_over_window[OF w, of 15150000000]
  have "activeTimeSlices (trim 15150000000 two_quanta)
          = trimmed (15150000000 - 15 * Second) (activeTimeSlices two_quanta)"
    by blast
  with t2 have c: "activeTimeSlices (trim 15150000000 two_quanta) = [(150000000, 200000000)]"
    by simp
  from w pre(1,2) a c u b show ?thesis by simp
qed


subsection \<open>A busy replica reports more than 1\<close>

lemma quanta_Suc:
  "quanta (Suc n) = quanta n @ [(int n * (100 * Millisecond), (int n + 1) * (100 * Millisecond))]"
  by (simp add: quanta_def)

lemma quanta_bounds: "a \<in> set (quanta n) \<Longrightarrow> 0 \<le> fst a \<and> fst a \<le> snd a"
  by (auto simp: quanta_def Millisecond_def)

lemma trimmed_quanta: "trimmed 0 (quanta n) = quanta n"
proof -
  have "filter (\<lambda>a. \<not> snd a < 0) (quanta n) = quanta n"
    by (rule filter_True) (use quanta_bounds in force)
  moreover have "map (\<lambda>a. (max (fst a) 0, snd a)) (quanta n) = quanta n"
    by (rule map_idI) (use quanta_bounds in \<open>force simp: max_def\<close>)
  ultimately show ?thesis by (simp add: trimmed_def)
qed

lemma total_length_quanta: "total_length (quanta n) = int n * (100 * Millisecond)"
  by (induction n) (simp_all add: quanta_Suc total_length_def quanta_def algebra_simps)

lemma usage_quanta:
  "fst (usage 15000000000 \<lparr> window = 15 * Second, activeTimeSlices = quanta 151 \<rparr>) = 151 / 150"
proof -
  have cut: "time_Add 15000000000 (wrap64 (- (15 * Second))) = 0"
    by (simp add: time_Add_def wrap64_def Second_def)
  have t: "activeTimeSlices (trim 15000000000 \<lparr> window = 15 * Second, activeTimeSlices = quanta 151 \<rparr>)
             = quanta 151"
    by (simp add: trim_trimmed cut trimmed_quanta)
  have nn: "list_all (\<lambda>a. fst a \<le> snd a) (quanta 151)"
    using quanta_bounds by (auto simp: list_all_iff)
  have "0 + total_length (quanta 151) \<le> maxDuration"
    by (simp add: total_length_quanta maxDuration_def Millisecond_def)
  with nn have "activeNanos_loop (quanta 151) 0 = 0 + total_length (quanta 151)"
    by (intro activeNanos_loop_exact) simp_all
  then have "activeNanos_loop (quanta 151) 0 = 15100000000"
    by (simp add: total_length_quanta Millisecond_def)
  with t show ?thesis
    by (simp add: usage_def Let_def trim_def Second_def)
qed


lemma run_append:
  "run (xs @ ys) s = (case run xs s of Inl err \<Rightarrow> Inl err | Inr s' \<Rightarrow> run ys s')"
  by (induction xs arbitrary: s) (auto split: sum.splits)

lemma first_arrival:
  "\<exists>s. execute (Arrive (RequestRef 0) 0) replica0 = Inr s \<and> queue_inv 0 0 s"
  by (simp add: queue_inv_def quanta_def rps_eval)

lemma next_arrival:
  assumes inv: "queue_inv m 0 s"
  shows "\<exists>s'. execute (Arrive (RequestRef (Suc m)) (int (Suc m))) s = Inr s' \<and> queue_inv (Suc m) 0 s'"
proof -
  from inv have rq: "cpuSecondsRequired (requestHeap s (Suc m)) = 100 * Millisecond"
    and cs: "cpuSecondsConsumed (requestHeap s (Suc m)) = 0"
    by (simp_all add: queue_inv_def)
  have rem: "cpuSecondsRemaining (requestHeap s (Suc m)) = 100 * Millisecond"
    by (simp add: cpuSecondsRemaining_def rq cs wrap64_def Millisecond_def)
  have pos: "0 < cpuSecondsRemaining (requestHeap s (Suc m))"
    by (simp add: rem Millisecond_def)
  from inv pos show ?thesis
    by (simp add: queue_inv_def rps_Add_def enqueueOrComplete_def fillCpu_def ts_Add_def
          ts_Count_def at_time_def CurrentMovementTime_def Let_def)
qed

lemma arrivals_run:
  "\<exists>s. run (map (\<lambda>k. Arrive (RequestRef k) (int k)) [0..<Suc m]) replica0 = Inr s \<and> queue_inv m 0 s"
proof (induction m)
  case 0
  from first_arrival show ?case by auto
next
  case (Suc m)
  then obtain s where
    r: "run (map (\<lambda>k. Arrive (RequestRef k) (int k)) [0..<Suc m]) replica0 = Inr s"
    and inv: "queue_inv m 0 s" by auto
  from next_arrival[OF inv] obtain s' where
    e: "execute (Arrive (RequestRef (Suc m)) (int (Suc m))) s = Inr s'"
    and inv': "queue_inv (Suc m) 0 s'" by auto
  have "map (\<lambda>k. Arrive (RequestRef k) (int k)) [0..<Suc (Suc m)]
          = map (\<lambda>k. Arrive (RequestRef k) (int k)) [0..<Suc m] @ [Arrive (RequestRef (Suc m)) (int (Suc m))]"
    by simp
  with r e have "run (map (\<lambda>k. Arrive (RequestRef k) (int k)) [0..<Suc (Suc m)]) replica0 = Inr s'"
    by (simp only: run_append) simp
  with inv' show ?case by blast
qed

lemma quanta_next:
  "quanta (Suc n) = quanta n @ [(int n * (100 * Millisecond), int n * (100 * Millisecond) + 100 * Millisecond)]"
  by (simp add: quanta_def algebra_simps)

lemma next_interrupt:
  assumes inv: "queue_inv m j s" and j: "j < m"
  shows "\<exists>s'. execute (InterruptProcess (int (Suc j) * (100 * Millisecond))) s = Inr s'
           \<and> queue_inv m (Suc j) s'
           \<and> TheTime (env s') = int (Suc j) * (100 * Millisecond)"
proof -
  let ?t = "int (Suc j) * (100 * Millisecond)"
  let ?s1 = "(at_time ?t s)\<lparr> processesOnCpu := (processesOnCpu s)\<lparr> stock := [] \<rparr> \<rparr>"
  from inv have cpu: "stock (processesOnCpu s) = [RequestRef 0]"
    and kinds: "stocksKind (processesActive s) = ''Request''" "stocksKind (processesOnCpu s) = ''Request''"
      "stocksKind (processesTerminated s) = ''Request''"
    and waiting: "\<forall>a>j. cpuSecondsRequired (requestHeap s a) = 100 * Millisecond
               \<and> cpuSecondsConsumed (requestHeap s a) = 0"
    and first: "startTime (requestHeap s 0) = Some 0"
      "cpuSecondsRequired (requestHeap s 0) = 100 * Millisecond"
      "cpuSecondsConsumed (requestHeap s 0) = 100 * Millisecond"
    and slices: "rpsCpuUsage s = \<lparr> window = 15 * Second, activeTimeSlices = quanta (Suc j) \<rparr>"
    by (simp_all add: queue_inv_def)
  have rm: "ts_Remove (processesOnCpu (at_time ?t s)) = (Some (RequestRef 0), (processesOnCpu s)\<lparr> stock := [] \<rparr>)"
    using cpu by (simp add: ts_Remove_def at_time_def)
  have e: "execute (InterruptProcess ?t) s = rps_Add (RequestRef 0) ?s1"
    using rm by simp
  have fin: "\<not> 0 < cpuSecondsRemaining (requestHeap s 0)"
    using first by (simp add: cpuSecondsRemaining_def wrap64_def)
  have act: "stock (processesActive s) = RequestRef (Suc j) # map RequestRef [Suc (Suc j)..<Suc m]"
    using inv j by (simp add: queue_inv_def upt_conv_Cons del: upt_Suc)
  from waiting have rq: "cpuSecondsRequired (requestHeap s (Suc j)) = 100 * Millisecond"
    and cs: "cpuSecondsConsumed (requestHeap s (Suc j)) = 0"
    by simp_all
  have rem: "cpuSecondsRemaining (requestHeap s (Suc j)) = 100 * Millisecond"
    by (simp add: cpuSecondsRemaining_def rq cs wrap64_def Millisecond_def)
  have small: "\<not> 200 * Millisecond < 100 * Millisecond"
    by (simp add: Millisecond_def)
  have charge: "wrap64 (100 * Millisecond) = 100 * Millisecond"
    by (simp add: wrap64_def Millisecond_def)
  have later: "\<forall>a>Suc j. cpuSecondsRequired (requestHeap s a) = 100 * Millisecond
               \<and> cpuSecondsConsumed (requestHeap s a) = 0"
    using waiting by simp
  have "\<exists>s'. rps_Add (RequestRef 0) ?s1 = Inr s' \<and> queue_inv m (Suc j) s'
           \<and> TheTime (env s') = ?t"
    using kinds first slices fin act rem small charge cs later
    by (simp add: queue_inv_def rps_Add_def enqueueOrComplete_def fillCpu_def ts_Add_def
          ts_Remove_def ts_Count_def at_time_def AddToSchedule_def CurrentMovementTime_def
          cpu_active_def time_Add_def Let_def quanta_next[of "Suc j"] del: upt_Suc)
  with e show ?thesis by simp
qed

lemma saturating_steps_Suc:
  "saturating_steps m (Suc j) = saturating_steps m j @ [InterruptProcess (int (Suc j) * (100 * Millisecond))]"
  by (simp add: saturating_steps_def)

lemma saturating_run:
  "j < m \<Longrightarrow> \<exists>s. run (saturating_steps m (Suc j)) replica0 = Inr s \<and> queue_inv m (Suc j) s
                  \<and> TheTime (env s) = int (Suc j) * (100 * Millisecond)"
proof (induction j)
  case 0
  from arrivals_run[of m] obtain s where
    r: "run (saturating_steps m 0) replica0 = Inr s" and inv: "queue_inv m 0 s"
    by (auto simp: saturating_steps_def)
  from next_interrupt[OF inv 0] obtain s' where
    "execute (InterruptProcess (int (Suc 0) * (100 * Millisecond))) s = Inr s'"
    "queue_inv m (Suc 0) s'" "TheTime (env s') = int (Suc 0) * (100 * Millisecond)" by blast
  with r show ?case by (auto simp only: saturating_steps_Suc run_append sum.case run.simps)
next
  case (Suc j)
  then obtain s where
    r: "run (saturating_steps m (Suc j)) replica0 = Inr s" and inv: "queue_inv m (Suc j) s"
    by auto
  from next_interrupt[OF inv Suc.prems] obtain s' where
    "execute (InterruptProcess (int (Suc (Suc j)) * (100 * Millisecond))) s = Inr s'"
    "queue_inv m (Suc (Suc j)) s'" "TheTime (env s') = int (Suc (Suc j)) * (100 * Millisecond)" by blast
  with r show ?case by (auto simp only: saturating_steps_Suc[of m "Suc j"] run_append sum.case run.simps)
qed

text \<open>
  Claim C7 as stated fails. 151 requests arrive at an idle replica within 150ns and
  the CPU is busy from then on; the interval of a quantum is recorded when the
  quantum is scheduled, so at the 150th interrupt, at 15s, the record covers 15.1s and
  \<open>usage\<close> returns 151/150. (The completions in between are left out of the run:
  they do not touch the record.)
\<close>

theorem usage_exceeds_one:
  "\<not> isl (run (saturating_steps 150 150) replica0)
   \<and> CurrentMovementTime (env (projr (run (saturating_steps 150 150) replica0))) = 15000000000
   \<and> activeTimeSlices (rpsCpuUsage (projr (run (saturating_steps 150 150) replica0))) = quanta 151
   \<and> fst (usage 15000000000 (rpsCpuUsage (projr (run (saturating_steps 150 150) replica0))))
       = 151 / 150
   \<and> 1 < fst (usage 15000000000 (rpsCpuUsage (projr (run (saturating_steps 150 150) replica0))))"
proof -
  have "(149::nat) < 150" by simp
  from saturating_run[OF this] obtain s where
    r: "run (saturating_steps 150 150) replica0 = Inr s" and inv: "queue_inv 150 150 s"
    and t0: "TheTime (env s) = int (Suc 149) * (100 * Millisecond)" by auto
  from t0 have t: "CurrentMovementTime (env s) = 15000000000"
    by (simp add: CurrentMovementTime_def Millisecond_def)
  from inv have c: "rpsCpuUsage s = \<lparr> window = 15 * Second, activeTimeSlices = quanta 151 \<rparr>"
    by (simp add: queue_inv_def)
  from r t c usage_quanta show ?thesis by simp
qed

end
